theory Spec2Isabelle
  imports Complex_Main
begin

section \<open>Data model of the VR180 server\<close>

text \<open>
  The server (\<^verbatim>\<open>src/server/index_optimized.js\<close>) keeps its jobs in a global
  \<^verbatim>\<open>Map\<close> from job id to a job object. A job carries a list of stage objects
  \<^verbatim>\<open>{ name, progress, status }\<close>. Status values are JavaScript strings and are kept
  as strings here. Progress values are JavaScript numbers; they are idealised as exact
  rationals. Every \<^verbatim>\<open>new Date()\<close> is a clock reading passed in as a natural number.
  The source file holds a second, nearly identical server after a separator line; the
  definitions follow the first one, lines 1 to 516.
\<close>

record stage =
  name :: string
  progress :: rat
  status :: string

text \<open>The job literal of \<^verbatim>\<open>app.post('/api/upload')\<close>. The fields \<^verbatim>\<open>completedAt\<close>,
  \<^verbatim>\<open>failedAt\<close> and \<^verbatim>\<open>error\<close> are absent until a handler sets them. The field
  \<^verbatim>\<open>pipeline\<close> is only ever assigned, never read, and is left out.\<close>

record job =
  job_id :: string
  filename :: string
  job_size :: nat
  uploadTime :: nat
  job_status :: string
  job_stages :: "stage list"
  lastUpdated :: nat
  completedAt :: "nat option"
  failedAt :: "nat option"
  error :: "string option"

text \<open>The fields of a \<^verbatim>\<open>VR180Pipeline\<close> object.\<close>

record pipeline =
  jobId :: string
  inputPath :: string
  outputDir :: string
  stages :: "stage list"

type_synonym registry = "string \<rightharpoonup> job"

text \<open>The stage list literal, written out twice in the source (in the constructor of
  \<^verbatim>\<open>VR180Pipeline\<close> and in the job literal): two separate arrays with equal contents.\<close>

definition initial_stages :: "stage list" where
  "initial_stages =
     [\<lparr>name = ''depth'', progress = 0, status = ''pending''\<rparr>,
      \<lparr>name = ''stereo'', progress = 0, status = ''pending''\<rparr>,
      \<lparr>name = ''outpainting'', progress = 0, status = ''pending''\<rparr>,
      \<lparr>name = ''blur'', progress = 0, status = ''pending''\<rparr>,
      \<lparr>name = ''upscaling'', progress = 0, status = ''pending''\<rparr>]"

definition new_pipeline :: "string \<Rightarrow> string \<Rightarrow> pipeline" where
  "new_pipeline jid path =
     \<lparr>jobId = jid, inputPath = path, outputDir = ''outputs/'' @ jid, stages = initial_stages\<rparr>"

section \<open>\<^verbatim>\<open>updateProgress\<close>\<close>

text \<open>\<^verbatim>\<open>this.stages.find(s => s.name === stageName)\<close> followed by the two assignments
  to the stage found: the first stage of that name is overwritten, and nothing happens
  when there is none.\<close>

fun set_stage :: "string \<Rightarrow> rat \<Rightarrow> string \<Rightarrow> stage list \<Rightarrow> stage list" where
  "set_stage stageName p st [] = []"
| "set_stage stageName p st (s # ss) =
     (if name s = stageName then s\<lparr>progress := p, status := st\<rparr> # ss
      else s # set_stage stageName p st ss)"

text \<open>\<^verbatim>\<open>updateProgress(stageName, progress, status = 'processing')\<close>. The progress
  is stored as given. The job found under \<^verbatim>\<open>this.jobId\<close> gets the pipeline's stage
  array and a fresh \<^verbatim>\<open>lastUpdated\<close>. Callers that leave the status out pass the
  default \<^verbatim>\<open>'processing'\<close> explicitly here.\<close>

definition updateProgress ::
  "nat \<Rightarrow> string \<Rightarrow> rat \<Rightarrow> string \<Rightarrow> pipeline \<times> registry \<Rightarrow> pipeline \<times> registry" where
  "updateProgress now stageName p st = (\<lambda>(this, jobs).
     (let this' = this\<lparr>stages := set_stage stageName p st (stages this)\<rparr>
      in (this',
          (case jobs (jobId this') of
             None \<Rightarrow> jobs
           | Some j \<Rightarrow> jobs(jobId this' \<mapsto> j\<lparr>job_stages := stages this', lastUpdated := now\<rparr>)))))"

section \<open>The upload, status and download routes\<close>

record upload_file =
  originalname :: string
  file_size :: nat
  file_path :: string

text \<open>The synchronous part of \<^verbatim>\<open>app.post('/api/upload')\<close>: the job literal,
  \<^verbatim>\<open>jobs.set\<close> and the construction of the pipeline. The id is the value returned
  by \<^verbatim>\<open>uuidv4()\<close>. Without a file the route answers 400 and changes nothing.\<close>

definition new_job :: "nat \<Rightarrow> string \<Rightarrow> upload_file \<Rightarrow> job" where
  "new_job now jid f =
     \<lparr>job_id = jid, filename = originalname f, job_size = file_size f, uploadTime = now,
      job_status = ''processing'', job_stages = initial_stages, lastUpdated = now,
      completedAt = None, failedAt = None, error = None\<rparr>"

definition submit :: "nat \<Rightarrow> string \<Rightarrow> upload_file \<Rightarrow> registry \<Rightarrow> pipeline \<times> registry" where
  "submit now jid f jobs = (new_pipeline jid (file_path f), jobs(jid \<mapsto> new_job now jid f))"


text \<open>The continuation handlers attached to \<^verbatim>\<open>pipeline.processVideo()\<close>. Both
  assign to the job object captured by the closure.\<close>

definition then_handler :: "nat \<Rightarrow> job \<Rightarrow> job" where
  "then_handler now j = j\<lparr>job_status := ''completed'', completedAt := Some now\<rparr>"

definition catch_handler :: "nat \<Rightarrow> string \<Rightarrow> job \<Rightarrow> job" where
  "catch_handler now msg j = j\<lparr>job_status := ''failed'', error := Some msg, failedAt := Some now\<rparr>"

text \<open>Answers of the routes: an error body with its HTTP status code, the JSON view of
  a job, or a file download (path served, name offered to the client).\<close>

datatype status_view = Status_view
  (view_id: string) (view_filename: string) (view_status: string) (view_stages: "stage list")
  (view_uploadTime: nat) (view_lastUpdated: nat) (view_completedAt: "nat option")
  (view_failedAt: "nat option") (view_error: "string option")

datatype response =
    Error_json nat string
  | Status_json status_view
  | Download string string


text \<open>\<^verbatim>\<open>job.filename.replace(/\.[^/.]+$/, "")\<close>: the first position at which a dot
  is followed, up to the end of the string, by one or more characters that are neither
  a slash nor a dot; everything from that dot on is removed. Without such a position
  the string is unchanged.\<close>

definition ext_match :: "string \<Rightarrow> bool" where
  "ext_match cs =
     (case cs of
        [] \<Rightarrow> False
      | c # rest \<Rightarrow> c = CHR ''.'' \<and> rest \<noteq> [] \<and> list_all (\<lambda>d. d \<noteq> CHR ''/'' \<and> d \<noteq> CHR ''.'') rest)"

fun remove_extension :: "string \<Rightarrow> string" where
  "remove_extension [] = []"
| "remove_extension (c # cs) = (if ext_match (c # cs) then [] else c # remove_extension cs)"

text \<open>\<^verbatim>\<open>app.get('/api/download/:jobId')\<close>. The predicate \<open>access\<close> says for which
  paths \<^verbatim>\<open>fs.access\<close> succeeds.\<close>

definition download :: "registry \<Rightarrow> (string \<Rightarrow> bool) \<Rightarrow> string \<Rightarrow> response" where
  "download jobs access jid =
     (case jobs jid of
        None \<Rightarrow> Error_json 404 ''Job not found''
      | Some j \<Rightarrow>
          if job_status j \<noteq> ''completed'' then Error_json 400 ''Job not completed yet''
          else (let outputPath = ''outputs/'' @ jid @ ''/final_vr180.mp4''
                in if access outputPath
                   then Download outputPath (remove_extension (filename j) @ ''_VR180.mp4'')
                   else Error_json 404 ''Output file not found''))"

section \<open>The pipeline\<close>

text \<open>
  What the outside world does during one run of \<^verbatim>\<open>processVideo\<close>:
  whether \<^verbatim>\<open>fs.mkdir\<close> rejects (with which message), the \<^verbatim>\<open>percent\<close> field of each
  \<^verbatim>\<open>'progress'\<close> event of ffmpeg (absent or \<^verbatim>\<open>NaN\<close> is \<open>None\<close>), whether ffmpeg ends
  with \<^verbatim>\<open>'error'\<close>, what \<^verbatim>\<open>fs.readdir\<close> returns, and for which loop index
  \<^verbatim>\<open>createOptimizedDepthMap\<close> resolves.
\<close>

record env =
  mkdir_error :: "string option"
  ffmpeg_percents :: "rat option list"
  ffmpeg_error :: "string option"
  readdir_result :: "string + string list"
  depth_map_created :: "nat \<Rightarrow> bool"

text \<open>A method of the pipeline is modelled by the calls of \<^verbatim>\<open>updateProgress\<close> it makes,
  in order, and the message of the error it throws, if any.\<close>

datatype call = UpdateProgress (call_stage: string) (call_progress: rat) (call_status: string)

type_synonym outcome = "call list \<times> string option"

definition initialize :: "env \<Rightarrow> outcome" where
  "initialize e = ([], mkdir_error e)"

text \<open>\<^verbatim>\<open>Math.min(progress.percent || 0, 90)\<close> and \<^verbatim>\<open>10 + (percent * 0.3)\<close>.\<close>

definition extraction_progress :: "rat option \<Rightarrow> rat" where
  "extraction_progress pc =
     (let percent = min (case pc of None \<Rightarrow> 0 | Some x \<Rightarrow> x) 90
      in 10 + percent * (3 / 10))"

definition extractFrames :: "env \<Rightarrow> outcome" where
  "extractFrames e =
     (UpdateProgress ''depth'' 10 ''processing''
        # map (\<lambda>pc. UpdateProgress ''depth'' (extraction_progress pc) ''processing'') (ffmpeg_percents e)
        @ (case ffmpeg_error e of
             None \<Rightarrow> [UpdateProgress ''depth'' 40 ''processing'']
           | Some msg \<Rightarrow> []),
      ffmpeg_error e)"

definition endsWith :: "string \<Rightarrow> string \<Rightarrow> bool" where
  "endsWith s suf = (length suf \<le> length s \<and> drop (length s - length suf) s = suf)"

text \<open>The body of the \<^verbatim>\<open>for\<close> loop of \<^verbatim>\<open>generateDepthMaps\<close> at index \<open>i\<close>: a
  rejected \<^verbatim>\<open>createOptimizedDepthMap\<close> is caught and the loop goes on.\<close>

definition depth_frame :: "env \<Rightarrow> nat \<Rightarrow> nat \<Rightarrow> call list" where
  "depth_frame e totalFrames i =
     (if depth_map_created e i
      then [UpdateProgress ''depth'' (50 + (of_nat (i + 1) / of_nat totalFrames) * 50) ''processing'']
      else [])"

definition generateDepthMaps :: "env \<Rightarrow> outcome" where
  "generateDepthMaps e =
     (case readdir_result e of
        Inl msg \<Rightarrow> ([UpdateProgress ''depth'' 50 ''processing''], Some msg)
      | Inr frameFiles \<Rightarrow>
          (let pngFiles = filter (\<lambda>f. endsWith f ''.png'') frameFiles;
               totalFrames = min (length pngFiles) 5
           in if totalFrames = 0
              then ([UpdateProgress ''depth'' 50 ''processing''], Some ''No frames extracted from video'')
              else (UpdateProgress ''depth'' 50 ''processing''
                      # concat (map (depth_frame e totalFrames) [0..<totalFrames])
                      @ [UpdateProgress ''depth'' 100 ''completed''],
                    None)))"

text \<open>The loops of the four simulated stages: \<open>steps\<close> rounds, each reporting
  \<^verbatim>\<open>((i + 1) / steps) * target\<close>.\<close>

definition step_calls :: "string \<Rightarrow> nat \<Rightarrow> rat \<Rightarrow> call list" where
  "step_calls stageName steps target =
     map (\<lambda>i. UpdateProgress stageName ((of_nat (i + 1) / of_nat steps) * target) ''processing'')
       [0..<steps]"

definition synthesizeStereo :: outcome where
  "synthesizeStereo =
     (UpdateProgress ''stereo'' 0 ''processing''
        # step_calls ''stereo'' 5 100
        @ [UpdateProgress ''stereo'' 100 ''completed''],
      None)"

definition expandPanorama :: outcome where
  "expandPanorama =
     (UpdateProgress ''outpainting'' 0 ''processing''
        # concat (map (step_calls ''outpainting'' 5) [60, 100])
        @ [UpdateProgress ''outpainting'' 100 ''completed''],
      None)"

definition applyFoveatedBlur :: outcome where
  "applyFoveatedBlur =
     (UpdateProgress ''blur'' 0 ''processing''
        # step_calls ''blur'' 4 100
        @ [UpdateProgress ''blur'' 100 ''completed''],
      None)"

definition upscaleAndEnhance :: outcome where
  "upscaleAndEnhance =
     (UpdateProgress ''upscaling'' 0 ''processing''
        # concat (map (step_calls ''upscaling'' 5) [70, 100])
        @ [UpdateProgress ''upscaling'' 100 ''completed''],
      None)"

text \<open>\<^verbatim>\<open>await a; await b\<close>: a thrown error ends the sequence.\<close>

definition and_then :: "outcome \<Rightarrow> outcome \<Rightarrow> outcome" where
  "and_then a b = (case snd a of Some msg \<Rightarrow> a | None \<Rightarrow> (fst a @ fst b, snd b))"

definition processVideo :: "env \<Rightarrow> outcome" where
  "processVideo e =
     and_then (initialize e)
    (and_then (extractFrames e)
    (and_then (generateDepthMaps e)
    (and_then synthesizeStereo
    (and_then expandPanorama
    (and_then applyFoveatedBlur
              upscaleAndEnhance)))))"

section \<open>Running a job\<close>

text \<open>The states after each call of \<^verbatim>\<open>updateProgress\<close>, in order. The \<open>k\<close>-th
  reading of the clock is \<open>clock k\<close>.\<close>

fun run_calls :: "(nat \<Rightarrow> nat) \<Rightarrow> nat \<Rightarrow> call list \<Rightarrow> pipeline \<times> registry \<Rightarrow> (pipeline \<times> registry) list" where
  "run_calls clock k [] s = []"
| "run_calls clock k (c # cs) s =
     (let s' = updateProgress (clock k) (call_stage c) (call_progress c) (call_status c) s
      in s' # run_calls clock (Suc k) cs s')"

text \<open>\<^verbatim>\<open>.then(...)\<close> runs when \<^verbatim>\<open>processVideo\<close> returns, \<^verbatim>\<open>.catch(...)\<close> when it
  throws; the job they assign to is the one stored under the id at upload. The
  \<^verbatim>\<open>.then\<close> callback only assigns two fields and logs, so it does not throw and
  \<^verbatim>\<open>.catch\<close> never runs after it: exactly one of the two handlers runs, once.\<close>

definition settle :: "nat \<Rightarrow> string option \<Rightarrow> pipeline \<times> registry \<Rightarrow> pipeline \<times> registry" where
  "settle now result = (\<lambda>(this, jobs).
     (this,
      (case jobs (jobId this) of
         None \<Rightarrow> jobs
       | Some j \<Rightarrow>
           jobs(jobId this \<mapsto> (case result of None \<Rightarrow> then_handler now j
                                  | Some msg \<Rightarrow> catch_handler now msg j)))))"

text \<open>Every state a status query can see during a job: the one the upload route leaves,
  the one after each progress call, and the one after the handler.\<close>

definition run_job :: "(nat \<Rightarrow> nat) \<Rightarrow> env \<Rightarrow> pipeline \<times> registry \<Rightarrow> (pipeline \<times> registry) list" where
  "run_job clock e s0 =
     (let cs = fst (processVideo e);
          tr = s0 # run_calls clock 0 cs s0
      in tr @ [settle (clock (length cs)) (snd (processVideo e)) (last tr)])"

text \<open>The job stored under an id, as the status route reads it.\<close>

definition stages_of :: "string \<Rightarrow> pipeline \<times> registry \<Rightarrow> stage list" where
  "stages_of jid s = (case snd s jid of None \<Rightarrow> [] | Some j \<Rightarrow> job_stages j)"

definition status_of :: "string \<Rightarrow> pipeline \<times> registry \<Rightarrow> string" where
  "status_of jid s = (case snd s jid of None \<Rightarrow> [] | Some j \<Rightarrow> job_status j)"

text \<open>The four stages after the depth stage; they only wait on timers.\<close>

definition simulated_stages :: outcome where
  "simulated_stages =
     and_then synthesizeStereo (and_then expandPanorama (and_then applyFoveatedBlur upscaleAndEnhance))"

text \<open>The successive contents of a stage array under a list of calls.\<close>

fun stage_trace :: "call list \<Rightarrow> stage list \<Rightarrow> stage list list" where
  "stage_trace [] ss = []"
| "stage_trace (c # cs) ss =
     (let ss' = set_stage (call_stage c) (call_progress c) (call_status c) ss
      in ss' # stage_trace cs ss')"

text \<open>A stage array is in pipeline order when no stage has left \<^verbatim>\<open>'pending'\<close> before
  its predecessor is \<^verbatim>\<open>'completed'\<close>.\<close>

fun in_order :: "stage list \<Rightarrow> bool" where
  "in_order (a # b # rest) =
     ((status b = ''pending'' \<or> status a = ''completed'') \<and> in_order (b # rest))"
| "in_order ss = True"

text \<open>Completed stages of the first array are completed in the second.\<close>

definition keeps_completed :: "stage list \<Rightarrow> stage list \<Rightarrow> bool" where
  "keeps_completed ss ss' =
     list_all2 (\<lambda>a b. status a = ''completed'' \<longrightarrow> status b = ''completed'') ss ss'"

text \<open>The stage array while only the depth stage has been touched.\<close>

definition depth_running :: "rat \<Rightarrow> string \<Rightarrow> stage list" where
  "depth_running p st =
     [\<lparr>name = ''depth'', progress = p, status = st\<rparr>,
      \<lparr>name = ''stereo'', progress = 0, status = ''pending''\<rparr>,
      \<lparr>name = ''outpainting'', progress = 0, status = ''pending''\<rparr>,
      \<lparr>name = ''blur'', progress = 0, status = ''pending''\<rparr>,
      \<lparr>name = ''upscaling'', progress = 0, status = ''pending''\<rparr>]"

section \<open>Sample inputs\<close>

definition sample_file :: upload_file where
  "sample_file = \<lparr>originalname = ''holiday.clip.mp4'', file_size = 2048, file_path = ''uploads/u1-holiday.clip.mp4''\<rparr>"

definition env_two_frames :: env where
  "env_two_frames =
     \<lparr>mkdir_error = None, ffmpeg_percents = [Some 50, None, Some 200], ffmpeg_error = None,
      readdir_result = Inr [''frame_0001.png'', ''notes.txt'', ''frame_0002.png''],
      depth_map_created = (\<lambda>i. i \<noteq> 0)\<rparr>"

definition env_no_frames :: env where
  "env_no_frames =
     \<lparr>mkdir_error = None, ffmpeg_percents = [Some 50], ffmpeg_error = None,
      readdir_result = Inr [''notes.txt''],
      depth_map_created = (\<lambda>i. True)\<rparr>"

definition env_negative_percent :: env where
  "env_negative_percent =
     \<lparr>mkdir_error = None, ffmpeg_percents = [Some (- 100)], ffmpeg_error = None,
      readdir_result = Inr [''frame_0001.png''],
      depth_map_created = (\<lambda>i. True)\<rparr>"

text \<open>A run of the job \<^verbatim>\<open>job-1\<close> in an otherwise empty registry, the clock
  advancing by one at each reading.\<close>

definition sample_run :: "env \<Rightarrow> (pipeline \<times> registry) list" where
  "sample_run e = run_job (\<lambda>k. k) e (submit 0 ''job-1'' sample_file Map.empty)"

section \<open>The routes\<close>





text \<open>
  Claim C7. The download route answers 404 (not found) for an unknown id, 400 (not ready)
  for a job whose status is not \<^verbatim>\<open>'completed'\<close>, 404 for a completed job whose output
  file is missing, and it offers a file only for a completed job whose output file
  exists; so never for a failed or still processing job.
\<close>

theorem download_errors:
  "(jobs jid = None \<longrightarrow> download jobs access jid = Error_json 404 ''Job not found'') \<and>
   (\<forall>j. jobs jid = Some j \<and> job_status j \<noteq> ''completed'' \<longrightarrow>
        download jobs access jid = Error_json 400 ''Job not completed yet'') \<and>
   (\<forall>j. jobs jid = Some j \<and> job_status j = ''completed''
          \<and> \<not> access (''outputs/'' @ jid @ ''/final_vr180.mp4'') \<longrightarrow>
        download jobs access jid = Error_json 404 ''Output file not found'') \<and>
   (\<forall>path dl. download jobs access jid = Download path dl \<longrightarrow>
        (\<exists>j. jobs jid = Some j \<and> job_status j = ''completed'' \<and> access path))"
  by (auto simp: download_def Let_def split: option.splits if_splits)

theorem download_errors_witness:
  "download Map.empty (\<lambda>p. True) ''job-9'' = Error_json 404 ''Job not found'' \<and>
   download [''job-1'' \<mapsto> new_job 0 ''job-1'' sample_file] (\<lambda>p. True) ''job-1''
     = Error_json 400 ''Job not completed yet'' \<and>
   download [''job-1'' \<mapsto> catch_handler 7 ''boom'' (new_job 0 ''job-1'' sample_file)] (\<lambda>p. True) ''job-1''
     = Error_json 400 ''Job not completed yet'' \<and>
   download [''job-1'' \<mapsto> then_handler 7 (new_job 0 ''job-1'' sample_file)] (\<lambda>p. False) ''job-1''
     = Error_json 404 ''Output file not found'' \<and>
   (\<exists>j. [''job-1'' \<mapsto> then_handler 7 (new_job 0 ''job-1'' sample_file)] ''job-1'' = Some j
        \<and> job_status j = ''completed'')"
proof -
  let ?new = "new_job 0 ''job-1'' sample_file"
  have a: "download Map.empty (\<lambda>p. True) ''job-9'' = Error_json 404 ''Job not found''"
    using download_errors [of Map.empty "''job-9''" "\<lambda>p. True"] by simp
  have b: "download [''job-1'' \<mapsto> ?new] (\<lambda>p. True) ''job-1''
      = Error_json 400 ''Job not completed yet''"
    using download_errors [of "[''job-1'' \<mapsto> ?new]" "''job-1''" "\<lambda>p. True"]
    by (simp add: new_job_def)
  have c: "download [''job-1'' \<mapsto> catch_handler 7 ''boom'' ?new] (\<lambda>p. True) ''job-1''
      = Error_json 400 ''Job not completed yet''"
    using download_errors [of "[''job-1'' \<mapsto> catch_handler 7 ''boom'' ?new]" "''job-1''" "\<lambda>p. True"]
    by (simp add: catch_handler_def)
  have d: "download [''job-1'' \<mapsto> then_handler 7 ?new] (\<lambda>p. False) ''job-1''
      = Error_json 404 ''Output file not found''"
    using download_errors [of "[''job-1'' \<mapsto> then_handler 7 ?new]" "''job-1''" "\<lambda>p. False"]
    by (simp add: then_handler_def)
  have e: "\<exists>j. [''job-1'' \<mapsto> then_handler 7 ?new] ''job-1'' = Some j \<and> job_status j = ''completed''"
    by (simp add: then_handler_def)
  from a b c d e show ?thesis by simp
qed

text \<open>The regular expression removes a final extension and nothing else.\<close>

lemma ext_match_Cons:
  "ext_match (c # cs) =
     (c = CHR ''.'' \<and> cs \<noteq> [] \<and> (\<forall>d\<in>set cs. d \<noteq> CHR ''/'' \<and> d \<noteq> CHR ''.''))"
  by (simp add: ext_match_def list_all_iff)

lemma remove_extension_strips:
  assumes "ext \<noteq> []" and "\<forall>d\<in>set ext. d \<noteq> CHR ''/'' \<and> d \<noteq> CHR ''.''"
  shows "remove_extension (base @ CHR ''.'' # ext) = base"
  using assms by (induction base) (auto simp: ext_match_Cons)

lemma remove_extension_no_dot:
  "CHR ''.'' \<notin> set s \<Longrightarrow> remove_extension s = s"
  by (induction s) (auto simp: ext_match_Cons)

text \<open>
  Claim C10. For a completed job whose output file exists, the download route serves
  \<^verbatim>\<open>outputs/<jobId>/final_vr180.mp4\<close> under the name \<open>stem @ ''_VR180.mp4''\<close>, where
  \<open>stem\<close> is the original file name without its final extension: when the name is
  \<open>base\<close>, a dot, and a non-empty extension free of dots and slashes, the stem is
  \<open>base\<close>; when the name has no dot, the stem is the whole name.
\<close>

theorem download_serves_artifact:
  assumes "jobs jid = Some j" and "job_status j = ''completed''"
    and "access (''outputs/'' @ jid @ ''/final_vr180.mp4'')"
  shows "\<exists>stem. download jobs access jid =
            Download (''outputs/'' @ jid @ ''/final_vr180.mp4'') (stem @ ''_VR180.mp4'')
     \<and> (\<forall>base ext. filename j = base @ ''.'' @ ext \<and> ext \<noteq> []
            \<and> (\<forall>d\<in>set ext. d \<noteq> CHR ''/'' \<and> d \<noteq> CHR ''.'') \<longrightarrow> stem = base)
     \<and> (CHR ''.'' \<notin> set (filename j) \<longrightarrow> stem = filename j)"
proof -
  have "download jobs access jid =
      Download (''outputs/'' @ jid @ ''/final_vr180.mp4'')
        (remove_extension (filename j) @ ''_VR180.mp4'')"
    using assms by (simp add: download_def)
  moreover have "\<forall>base ext. filename j = base @ ''.'' @ ext \<and> ext \<noteq> []
       \<and> (\<forall>d\<in>set ext. d \<noteq> CHR ''/'' \<and> d \<noteq> CHR ''.'')
       \<longrightarrow> remove_extension (filename j) = base"
    using remove_extension_strips by simp
  moreover have "CHR ''.'' \<notin> set (filename j) \<longrightarrow> remove_extension (filename j) = filename j"
    using remove_extension_no_dot by blast
  ultimately show ?thesis by blast
qed

theorem download_serves_artifact_witness:
  "[''job-1'' \<mapsto> then_handler 7 (new_job 0 ''job-1'' sample_file)] ''job-1''
      = Some (then_handler 7 (new_job 0 ''job-1'' sample_file))
   \<and> job_status (then_handler 7 (new_job 0 ''job-1'' sample_file)) = ''completed''
   \<and> download [''job-1'' \<mapsto> then_handler 7 (new_job 0 ''job-1'' sample_file)]
        (\<lambda>p. p = ''outputs/job-1/final_vr180.mp4'') ''job-1''
      = Download ''outputs/job-1/final_vr180.mp4'' ''holiday.clip_VR180.mp4''"
proof -
  let ?j = "then_handler 7 (new_job 0 ''job-1'' sample_file)"
  let ?acc = "\<lambda>p. p = ''outputs/job-1/final_vr180.mp4''"
  have b: "job_status ?j = ''completed''"
    by (simp add: then_handler_def)
  have "\<exists>stem. download [''job-1'' \<mapsto> ?j] ?acc ''job-1'' =
            Download (''outputs/'' @ ''job-1'' @ ''/final_vr180.mp4'') (stem @ ''_VR180.mp4'')
     \<and> (\<forall>base ext. filename ?j = base @ ''.'' @ ext \<and> ext \<noteq> []
            \<and> (\<forall>d\<in>set ext. d \<noteq> CHR ''/'' \<and> d \<noteq> CHR ''.'') \<longrightarrow> stem = base)
     \<and> (CHR ''.'' \<notin> set (filename ?j) \<longrightarrow> stem = filename ?j)"
    by (rule download_serves_artifact [of "[''job-1'' \<mapsto> ?j]" "''job-1''" ?j ?acc])
       (simp_all add: b)
  then obtain stem where
    s: "download [''job-1'' \<mapsto> ?j] ?acc ''job-1'' =
            Download (''outputs/'' @ ''job-1'' @ ''/final_vr180.mp4'') (stem @ ''_VR180.mp4'')"
    and t: "\<forall>base ext. filename ?j = base @ ''.'' @ ext \<and> ext \<noteq> []
            \<and> (\<forall>d\<in>set ext. d \<noteq> CHR ''/'' \<and> d \<noteq> CHR ''.'') \<longrightarrow> stem = base"
    by blast
  have "filename ?j = ''holiday.clip'' @ ''.'' @ ''mp4'' \<and> ''mp4'' \<noteq> []
        \<and> (\<forall>d\<in>set ''mp4''. d \<noteq> CHR ''/'' \<and> d \<noteq> CHR ''.'')"
    by (simp add: then_handler_def new_job_def sample_file_def)
  with t have "stem = ''holiday.clip''" by blast
  with s b show ?thesis by simp
qed

section \<open>Runs of the pipeline\<close>

subsection \<open>Calls and stage arrays\<close>

lemma stage_trace_append:
  "stage_trace (xs @ ys) ss = stage_trace xs ss @ stage_trace ys (last (ss # stage_trace xs ss))"
  by (induction xs arbitrary: ss) (simp_all add: Let_def)

lemma length_stage_trace: "length (stage_trace cs ss) = length cs"
  by (induction cs arbitrary: ss) (simp_all add: Let_def)

lemma stage_trace_same_stage:
  assumes "\<forall>c\<in>set cs. call_stage c = name a"
  shows "stage_trace cs (a # rest) =
           map (\<lambda>c. a\<lparr>progress := call_progress c, status := call_status c\<rparr> # rest) cs"
  using assms by (induction cs arbitrary: a) (simp_all add: Let_def)

subsection \<open>The registry follows the pipeline\<close>

lemma updateProgress_fst:
  "fst (updateProgress now n p st s) = (fst s)\<lparr>stages := set_stage n p st (stages (fst s))\<rparr>"
  by (cases s) (simp add: updateProgress_def Let_def)

lemma updateProgress_stages_of:
  assumes "jobId (fst s) \<in> dom (snd s)"
  shows "stages_of (jobId (fst s)) (updateProgress now n p st s) = set_stage n p st (stages (fst s))"
  using assms by (cases s) (auto simp: updateProgress_def Let_def stages_of_def)

lemma updateProgress_dom:
  "dom (snd (updateProgress now n p st s)) = dom (snd s)"
  by (cases s) (auto simp: updateProgress_def Let_def split: option.splits if_splits)

lemma updateProgress_status_of:
  "status_of i (updateProgress now n p st s) = status_of i s"
  by (cases s) (auto simp: updateProgress_def Let_def status_of_def split: option.splits)

lemma run_calls_stages_of:
  assumes "jobId (fst s) \<in> dom (snd s)"
  shows "map (stages_of (jobId (fst s))) (run_calls clock k cs s) = stage_trace cs (stages (fst s))"
  using assms
proof (induction cs arbitrary: k s)
  case Nil
  then show ?case by simp
next
  case (Cons c cs)
  let ?s' = "updateProgress (clock k) (call_stage c) (call_progress c) (call_status c) s"
  have id: "jobId (fst ?s') = jobId (fst s)"
    by (simp add: updateProgress_fst)
  have reg: "jobId (fst ?s') \<in> dom (snd ?s')"
    using Cons.prems by (simp only: id updateProgress_dom)
  have "map (stages_of (jobId (fst ?s'))) (run_calls clock (Suc k) cs ?s')
          = stage_trace cs (stages (fst ?s'))"
    using Cons.IH [OF reg] .
  moreover have "stages_of (jobId (fst s)) ?s'
      = set_stage (call_stage c) (call_progress c) (call_status c) (stages (fst s))"
    using Cons.prems by (intro updateProgress_stages_of) auto
  ultimately show ?case
    by (simp add: Let_def id updateProgress_fst)
qed

lemma run_calls_status_of:
  "map (status_of i) (run_calls clock k cs s) = replicate (length cs) (status_of i s)"
  by (induction cs arbitrary: k s) (simp_all add: Let_def updateProgress_status_of)

lemma length_run_calls: "length (run_calls clock k cs s) = length cs"
  by (induction cs arbitrary: k s) (simp_all add: Let_def)

lemma run_calls_last_Cons:
  "last (s # run_calls clock k (c # cs) s) =
     last (updateProgress (clock k) (call_stage c) (call_progress c) (call_status c) s
            # run_calls clock (Suc k) cs
                (updateProgress (clock k) (call_stage c) (call_progress c) (call_status c) s))"
  by (simp add: Let_def)

lemma run_calls_last_fst:
  "jobId (fst (last (s # run_calls clock k cs s))) = jobId (fst s)"
proof (induction cs arbitrary: k s)
  case Nil
  then show ?case by simp
next
  case (Cons c cs)
  show ?case
    by (simp only: run_calls_last_Cons Cons.IH) (simp add: updateProgress_fst)
qed

lemma run_calls_last_dom:
  "dom (snd (last (s # run_calls clock k cs s))) = dom (snd s)"
proof (induction cs arbitrary: k s)
  case Nil
  then show ?case by simp
next
  case (Cons c cs)
  show ?case
    by (simp only: run_calls_last_Cons Cons.IH updateProgress_dom)
qed

lemma settle_stages_of: "stages_of i (settle now r s) = stages_of i s"
  by (cases s) (auto simp: settle_def stages_of_def then_handler_def catch_handler_def
      split: option.splits)

lemma settle_status_of:
  assumes "jobId (fst s) \<in> dom (snd s)"
  shows "status_of (jobId (fst s)) (settle now r s) =
           (case r of None \<Rightarrow> ''completed'' | Some msg \<Rightarrow> ''failed'')"
  using assms
  by (cases s) (auto simp: settle_def status_of_def then_handler_def catch_handler_def
      split: option.splits)

lemma submit_simps:
  "jobId (fst (submit now jid f jobs)) = jid"
  "stages (fst (submit now jid f jobs)) = initial_stages"
  "snd (submit now jid f jobs) jid = Some (new_job now jid f)"
  "jid \<in> dom (snd (submit now jid f jobs))"
  "stages_of jid (submit now jid f jobs) = initial_stages"
  "status_of jid (submit now jid f jobs) = ''processing''"
  by (simp_all add: submit_def new_pipeline_def new_job_def stages_of_def status_of_def)

lemma run_job_stages:
  "map (stages_of jid) (run_job clock e (submit now jid f jobs)) =
     (initial_stages # stage_trace (fst (processVideo e)) initial_stages)
       @ [last (initial_stages # stage_trace (fst (processVideo e)) initial_stages)]"
proof -
  let ?s0 = "submit now jid f jobs"
  let ?cs = "fst (processVideo e)"
  have reg: "jobId (fst ?s0) \<in> dom (snd ?s0)"
    by (simp add: submit_simps)
  have tr: "map (stages_of jid) (?s0 # run_calls clock 0 ?cs ?s0)
      = initial_stages # stage_trace ?cs initial_stages"
    using run_calls_stages_of [OF reg, of clock 0 ?cs] by (simp add: submit_simps)
  have "stages_of jid (last (?s0 # run_calls clock 0 ?cs ?s0))
      = last (map (stages_of jid) (?s0 # run_calls clock 0 ?cs ?s0))"
    by (rule last_map [symmetric]) simp
  then have "stages_of jid (last (?s0 # run_calls clock 0 ?cs ?s0))
      = last (initial_stages # stage_trace ?cs initial_stages)"
    by (simp only: tr)
  then show ?thesis
    using tr by (simp add: run_job_def Let_def settle_stages_of del: last.simps)
qed

lemma run_job_statuses:
  "map (status_of jid) (run_job clock e (submit now jid f jobs)) =
     replicate (Suc (length (fst (processVideo e)))) ''processing''
       @ [case snd (processVideo e) of None \<Rightarrow> ''completed'' | Some msg \<Rightarrow> ''failed'']"
proof -
  let ?s0 = "submit now jid f jobs"
  let ?cs = "fst (processVideo e)"
  let ?l = "last (?s0 # run_calls clock 0 ?cs ?s0)"
  have id: "jobId (fst ?l) = jid"
    using run_calls_last_fst [of ?s0 clock 0 ?cs] by (simp only: submit_simps)
  have "jid \<in> dom (snd ?l)"
    by (simp only: run_calls_last_dom submit_simps)
  then have "status_of jid (settle (clock (length ?cs)) (snd (processVideo e)) ?l)
      = (case snd (processVideo e) of None \<Rightarrow> ''completed'' | Some msg \<Rightarrow> ''failed'')"
    using settle_status_of [of ?l] id by simp
  then show ?thesis
    by (simp add: run_job_def Let_def run_calls_status_of submit_simps del: last.simps)
qed

lemma length_run_job:
  "length (run_job clock e s0) = length (fst (processVideo e)) + 2"
  by (simp add: run_job_def Let_def length_run_calls)

lemma run_job_last:
  "last (run_job clock e s0) =
     settle (clock (length (fst (processVideo e)))) (snd (processVideo e))
       (last (s0 # run_calls clock 0 (fst (processVideo e)) s0))"
  by (simp only: run_job_def Let_def last_snoc)

lemma run_job_stages_nth:
  assumes "k \<le> length (fst (processVideo e))"
  shows "stages_of jid (run_job clock e (submit now jid f jobs) ! k) =
           (initial_stages # stage_trace (fst (processVideo e)) initial_stages) ! k"
proof -
  let ?T = "run_job clock e (submit now jid f jobs)"
  let ?ST = "initial_stages # stage_trace (fst (processVideo e)) initial_stages"
  have "k < length ?T"
    using assms by (simp add: length_run_job)
  then have "stages_of jid (?T ! k) = map (stages_of jid) ?T ! k"
    by simp
  also have "\<dots> = (?ST @ [last ?ST]) ! k"
    by (simp only: run_job_stages)
  also have "\<dots> = ?ST ! k"
  proof -
    have "k < length ?ST"
      using assms by (simp add: length_stage_trace)
    then show ?thesis
      by (rule nth_append_left)
  qed
  finally show ?thesis .
qed

lemma sample_run_stages:
  assumes "length (fst (processVideo e)) = n" and "k \<le> n"
  shows "stages_of ''job-1'' (sample_run e ! k) =
           (initial_stages # stage_trace (fst (processVideo e)) initial_stages) ! k"
  using assms unfolding sample_run_def by (intro run_job_stages_nth) simp

text \<open>A job's record is written only through its own id: by the calls and the handler
  of its own pipeline. What other jobs do in between leaves it as it is, so the run of
  one job can be followed on its own.\<close>

lemma updateProgress_other:
  "jobId (fst s) \<noteq> i \<Longrightarrow> snd (updateProgress now n p st s) i = snd s i"
  by (cases s) (auto simp: updateProgress_def Let_def split: option.splits)

lemma settle_other:
  "jobId (fst s) \<noteq> i \<Longrightarrow> snd (settle now r s) i = snd s i"
  by (cases s) (auto simp: settle_def split: option.splits)

lemma submit_other:
  "i \<noteq> jid \<Longrightarrow> snd (submit now jid f jobs) i = jobs i"
  by (simp add: submit_def)

lemma status_of_submit_other:
  "i \<noteq> jid \<Longrightarrow> status_of i (submit now jid f jobs) = status_of i (this, jobs)"
  by (simp add: status_of_def submit_def)

lemma status_of_settle_other:
  "jobId (fst s) \<noteq> i \<Longrightarrow> status_of i (settle now r s) = status_of i s"
  by (cases s) (auto simp: status_of_def settle_def split: option.splits)

lemma settle_failed:
  assumes "jobId (fst s) \<in> dom (snd s)"
  shows "\<exists>j. snd (settle now (Some msg) s) (jobId (fst s)) = Some j \<and> job_status j = ''failed''
           \<and> error j = Some msg \<and> job_stages j = stages_of (jobId (fst s)) s"
  using assms
  by (cases s) (auto simp: settle_def catch_handler_def stages_of_def)

subsection \<open>The shape of a run\<close>

lemma processVideo_mkdir_fails:
  "mkdir_error e = Some m \<Longrightarrow> processVideo e = ([], Some m)"
  by (simp add: processVideo_def and_then_def initialize_def)

lemma processVideo_ffmpeg_fails:
  "mkdir_error e = None \<Longrightarrow> ffmpeg_error e = Some m \<Longrightarrow>
   processVideo e = (fst (extractFrames e), Some m)"
  by (simp add: processVideo_def and_then_def initialize_def extractFrames_def)

lemma processVideo_depth_fails:
  "mkdir_error e = None \<Longrightarrow> ffmpeg_error e = None \<Longrightarrow> snd (generateDepthMaps e) = Some m \<Longrightarrow>
   processVideo e = (fst (extractFrames e) @ fst (generateDepthMaps e), Some m)"
  by (simp add: processVideo_def and_then_def initialize_def extractFrames_def)

lemma simulated_stages_succeed: "snd simulated_stages = None"
  by (simp add: simulated_stages_def and_then_def synthesizeStereo_def expandPanorama_def
      applyFoveatedBlur_def upscaleAndEnhance_def)

lemma processVideo_succeeds:
  "mkdir_error e = None \<Longrightarrow> ffmpeg_error e = None \<Longrightarrow> snd (generateDepthMaps e) = None \<Longrightarrow>
   processVideo e =
     (fst (extractFrames e) @ fst (generateDepthMaps e) @ fst simulated_stages, None)"
  using simulated_stages_succeed
  by (simp add: processVideo_def and_then_def initialize_def extractFrames_def
      simulated_stages_def)

lemma extractFrames_calls:
  "c \<in> set (fst (extractFrames e)) \<Longrightarrow> call_stage c = ''depth'' \<and> call_status c = ''processing''"
  by (auto simp: extractFrames_def split: option.splits)

lemma extractFrames_first:
  "fst (extractFrames e) = UpdateProgress ''depth'' 10 ''processing'' # tl (fst (extractFrames e))"
  by (simp add: extractFrames_def)

lemma depth_frame_calls:
  "c \<in> set (depth_frame e n i) \<Longrightarrow> call_stage c = ''depth'' \<and> call_status c = ''processing''"
  by (auto simp: depth_frame_def split: if_splits)

lemma generateDepthMaps_fails:
  "snd (generateDepthMaps e) = Some m \<Longrightarrow>
   fst (generateDepthMaps e) = [UpdateProgress ''depth'' 50 ''processing'']"
  by (auto simp: generateDepthMaps_def Let_def min_def split: sum.splits if_splits)

lemma generateDepthMaps_succeeds:
  assumes "snd (generateDepthMaps e) = None"
  shows "\<exists>body. fst (generateDepthMaps e) = body @ [UpdateProgress ''depth'' 100 ''completed'']
           \<and> (\<forall>c\<in>set body. call_stage c = ''depth'' \<and> call_status c = ''processing'')"
proof (cases "readdir_result e")
  case (Inl msg)
  with assms show ?thesis by (simp add: generateDepthMaps_def)
next
  case (Inr frameFiles)
  let ?n = "min (length (filter (\<lambda>f. endsWith f ''.png'') frameFiles)) 5"
  let ?body = "UpdateProgress ''depth'' 50 ''processing'' # concat (map (depth_frame e ?n) [0..<?n])"
  from assms Inr have "fst (generateDepthMaps e) = ?body @ [UpdateProgress ''depth'' 100 ''completed'']"
    by (simp add: generateDepthMaps_def Let_def split: if_splits)
  moreover have "\<forall>c\<in>set ?body. call_stage c = ''depth'' \<and> call_status c = ''processing''"
    using depth_frame_calls by auto
  ultimately show ?thesis by blast
qed

lemma simulated_calls:
  "fst simulated_stages =
    [UpdateProgress ''stereo'' 0 ''processing'',
     UpdateProgress ''stereo'' 20 ''processing'',
     UpdateProgress ''stereo'' 40 ''processing'',
     UpdateProgress ''stereo'' 60 ''processing'',
     UpdateProgress ''stereo'' 80 ''processing'',
     UpdateProgress ''stereo'' 100 ''processing'',
     UpdateProgress ''stereo'' 100 ''completed'',
     UpdateProgress ''outpainting'' 0 ''processing'',
     UpdateProgress ''outpainting'' 12 ''processing'',
     UpdateProgress ''outpainting'' 24 ''processing'',
     UpdateProgress ''outpainting'' 36 ''processing'',
     UpdateProgress ''outpainting'' 48 ''processing'',
     UpdateProgress ''outpainting'' 60 ''processing'',
     UpdateProgress ''outpainting'' 20 ''processing'',
     UpdateProgress ''outpainting'' 40 ''processing'',
     UpdateProgress ''outpainting'' 60 ''processing'',
     UpdateProgress ''outpainting'' 80 ''processing'',
     UpdateProgress ''outpainting'' 100 ''processing'',
     UpdateProgress ''outpainting'' 100 ''completed'',
     UpdateProgress ''blur'' 0 ''processing'',
     UpdateProgress ''blur'' 25 ''processing'',
     UpdateProgress ''blur'' 50 ''processing'',
     UpdateProgress ''blur'' 75 ''processing'',
     UpdateProgress ''blur'' 100 ''processing'',
     UpdateProgress ''blur'' 100 ''completed'',
     UpdateProgress ''upscaling'' 0 ''processing'',
     UpdateProgress ''upscaling'' 14 ''processing'',
     UpdateProgress ''upscaling'' 28 ''processing'',
     UpdateProgress ''upscaling'' 42 ''processing'',
     UpdateProgress ''upscaling'' 56 ''processing'',
     UpdateProgress ''upscaling'' 70 ''processing'',
     UpdateProgress ''upscaling'' 20 ''processing'',
     UpdateProgress ''upscaling'' 40 ''processing'',
     UpdateProgress ''upscaling'' 60 ''processing'',
     UpdateProgress ''upscaling'' 80 ''processing'',
     UpdateProgress ''upscaling'' 100 ''processing'',
     UpdateProgress ''upscaling'' 100 ''completed'']"
  by code_simp

lemma processVideo_shape:
  "\<exists>body. (\<forall>c\<in>set body. call_stage c = ''depth'' \<and> call_status c = ''processing'')
     \<and> (mkdir_error e = None \<longrightarrow> body \<noteq> [])
     \<and> (case snd (processVideo e) of
          Some m \<Rightarrow> fst (processVideo e) = body
        | None \<Rightarrow> fst (processVideo e) =
            body @ UpdateProgress ''depth'' 100 ''completed'' # fst simulated_stages)"
proof (cases "mkdir_error e")
  case (Some m)
  then show ?thesis
    by (intro exI [of _ "[]"]) (simp add: processVideo_mkdir_fails)
next
  case None
  note mk = this
  show ?thesis
  proof (cases "ffmpeg_error e")
    case (Some m)
    with mk show ?thesis
      using extractFrames_calls [of _ e] extractFrames_first [of e]
      by (intro exI [of _ "fst (extractFrames e)"]) (auto simp: processVideo_ffmpeg_fails)
  next
    case None
    note ff = this
    show ?thesis
    proof (cases "snd (generateDepthMaps e)")
      case (Some m)
      with mk ff show ?thesis
        using extractFrames_calls [of _ e] generateDepthMaps_fails [of e m]
        by (intro exI [of _ "fst (extractFrames e) @ fst (generateDepthMaps e)"])
           (auto simp: processVideo_depth_fails)
    next
      case None
      from generateDepthMaps_succeeds [OF None] obtain body where
        b: "fst (generateDepthMaps e) = body @ [UpdateProgress ''depth'' 100 ''completed'']"
        and c: "\<forall>c\<in>set body. call_stage c = ''depth'' \<and> call_status c = ''processing''"
        by blast
      from mk ff None b c show ?thesis
        using extractFrames_calls [of _ e] extractFrames_first [of e]
        by (intro exI [of _ "fst (extractFrames e) @ body"])
           (auto simp: processVideo_succeeds)
    qed
  qed
qed

lemma initial_is_depth_running: "initial_stages = depth_running 0 ''pending''"
  by (simp add: initial_stages_def depth_running_def)

lemma stage_trace_depth:
  assumes "\<forall>c\<in>set cs. call_stage c = ''depth'' \<and> call_status c = ''processing''"
  shows "stage_trace cs (depth_running p st) =
           map (\<lambda>c. depth_running (call_progress c) ''processing'') cs"
proof -
  have "stage_trace cs (depth_running p st) =
      map (\<lambda>c. depth_running (call_progress c) (call_status c)) cs"
    unfolding depth_running_def
    using assms by (subst stage_trace_same_stage) simp_all
  also have "\<dots> = map (\<lambda>c. depth_running (call_progress c) ''processing'') cs"
    using assms by simp
  finally show ?thesis .
qed

lemma stage_trace_depth_completed:
  "stage_trace [UpdateProgress ''depth'' 100 ''completed''] (depth_running p st)
     = [depth_running 100 ''completed'']"
  by (simp add: depth_running_def)

lemma last_depth_states:
  "\<exists>q r. last (depth_running p st # map (\<lambda>c. depth_running (call_progress c) ''processing'') body)
      = depth_running q r"
proof (cases "body = []")
  case True
  then show ?thesis by simp blast
next
  case False
  then have "last (depth_running p st # map (\<lambda>c. depth_running (call_progress c) ''processing'') body)
      = depth_running (call_progress (last body)) ''processing''"
    by (simp add: last_map)
  then show ?thesis by blast
qed

lemma full_trace_shape:
  "\<exists>body. (\<forall>c\<in>set body. call_stage c = ''depth'' \<and> call_status c = ''processing'')
     \<and> (mkdir_error e = None \<longrightarrow> body \<noteq> [])
     \<and> (case snd (processVideo e) of
          Some m \<Rightarrow> fst (processVideo e) = body \<and>
            initial_stages # stage_trace (fst (processVideo e)) initial_stages =
              depth_running 0 ''pending'' # map (\<lambda>c. depth_running (call_progress c) ''processing'') body
        | None \<Rightarrow>
            fst (processVideo e) = body @ UpdateProgress ''depth'' 100 ''completed'' # fst simulated_stages \<and>
            initial_stages # stage_trace (fst (processVideo e)) initial_stages =
              (depth_running 0 ''pending'' # map (\<lambda>c. depth_running (call_progress c) ''processing'') body)
              @ (depth_running 100 ''completed''
                  # stage_trace (fst simulated_stages) (depth_running 100 ''completed'')))"
proof -
  obtain body where
    b: "\<forall>c\<in>set body. call_stage c = ''depth'' \<and> call_status c = ''processing''"
    and n: "mkdir_error e = None \<longrightarrow> body \<noteq> []"
    and s: "case snd (processVideo e) of
          Some m \<Rightarrow> fst (processVideo e) = body
        | None \<Rightarrow> fst (processVideo e) =
            body @ UpdateProgress ''depth'' 100 ''completed'' # fst simulated_stages"
    using processVideo_shape [of e] by (elim exE conjE)
  let ?D = "map (\<lambda>c. depth_running (call_progress c) ''processing'') body"
  have tb: "stage_trace body (depth_running 0 ''pending'') = ?D"
    using b by (rule stage_trace_depth)
  show ?thesis
  proof (cases "snd (processVideo e)")
    case (Some m)
    with s have "fst (processVideo e) = body"
      by simp
    with Some b n tb show ?thesis
      by (intro exI [of _ body]) (simp add: initial_is_depth_running)
  next
    case None
    with s have cs: "fst (processVideo e) =
        body @ UpdateProgress ''depth'' 100 ''completed'' # fst simulated_stages"
      by simp
    obtain q r where l: "last (depth_running 0 ''pending'' # ?D) = depth_running q r"
      using last_depth_states [of 0 "''pending''" body] by (elim exE)
    have "stage_trace ([UpdateProgress ''depth'' 100 ''completed''] @ fst simulated_stages)
            (depth_running q r)
        = [depth_running 100 ''completed'']
            @ stage_trace (fst simulated_stages) (depth_running 100 ''completed'')"
      by (simp only: stage_trace_append stage_trace_depth_completed) simp
    then have "stage_trace (body @ ([UpdateProgress ''depth'' 100 ''completed''] @ fst simulated_stages))
            (depth_running 0 ''pending'')
        = ?D @ ([depth_running 100 ''completed'']
                 @ stage_trace (fst simulated_stages) (depth_running 100 ''completed''))"
      by (simp only: stage_trace_append [of body] tb l)
    then have "stage_trace (fst (processVideo e)) (depth_running 0 ''pending'')
        = ?D @ (depth_running 100 ''completed''
                 # stage_trace (fst simulated_stages) (depth_running 100 ''completed''))"
      by (simp only: cs append_Cons append_Nil)
    with cs None b n show ?thesis
      by (intro exI [of _ body]) (simp add: initial_is_depth_running)
  qed
qed

lemma failed_trace:
  assumes "mkdir_error e = None" and "snd (processVideo e) = Some msg"
  shows "initial_stages # stage_trace (fst (processVideo e)) initial_stages =
           depth_running 0 ''pending''
             # map (\<lambda>c. depth_running (call_progress c) ''processing'') (fst (processVideo e))"
    and "fst (processVideo e) \<noteq> []"
proof -
  let ?ST = "initial_stages # stage_trace (fst (processVideo e)) initial_stages"
  obtain body where
    n: "mkdir_error e = None \<longrightarrow> body \<noteq> []" and
    s: "case snd (processVideo e) of
          Some m \<Rightarrow> fst (processVideo e) = body \<and>
            ?ST = depth_running 0 ''pending'' # map (\<lambda>c. depth_running (call_progress c) ''processing'') body
        | None \<Rightarrow>
            fst (processVideo e) = body @ UpdateProgress ''depth'' 100 ''completed'' # fst simulated_stages \<and>
            ?ST = (depth_running 0 ''pending'' # map (\<lambda>c. depth_running (call_progress c) ''processing'') body)
              @ (depth_running 100 ''completed''
                  # stage_trace (fst simulated_stages) (depth_running 100 ''completed''))"
    using full_trace_shape [of e] by (elim exE conjE)
  note s' = s [unfolded assms(2) option.case]
  have b: "fst (processVideo e) = body"
    using s' by (rule conjunct1)
  show "fst (processVideo e) \<noteq> []"
    using n assms(1) by (simp only: b) simp
  show "?ST = depth_running 0 ''pending''
             # map (\<lambda>c. depth_running (call_progress c) ''processing'') (fst (processVideo e))"
    using s' [THEN conjunct2] by (simp only: b)
qed

lemma trace_cases:
  assumes "ss \<in> set (initial_stages # stage_trace (fst (processVideo e)) initial_stages)"
  shows "ss = depth_running 0 ''pending''
    \<or> (\<exists>c\<in>set (fst (processVideo e)). ss = depth_running (call_progress c) ''processing'')
    \<or> ss \<in> set (depth_running 100 ''completed''
                # stage_trace (fst simulated_stages) (depth_running 100 ''completed''))"
proof -
  let ?ST = "initial_stages # stage_trace (fst (processVideo e)) initial_stages"
  let ?tail = "depth_running 100 ''completed''
                # stage_trace (fst simulated_stages) (depth_running 100 ''completed'')"
  obtain body where
    s: "case snd (processVideo e) of
          Some m \<Rightarrow> fst (processVideo e) = body \<and>
            ?ST = depth_running 0 ''pending'' # map (\<lambda>c. depth_running (call_progress c) ''processing'') body
        | None \<Rightarrow>
            fst (processVideo e) = body @ UpdateProgress ''depth'' 100 ''completed'' # fst simulated_stages \<and>
            ?ST = (depth_running 0 ''pending'' # map (\<lambda>c. depth_running (call_progress c) ''processing'') body)
              @ ?tail"
    using full_trace_shape [of e] by (elim exE conjE)
  let ?D = "depth_running 0 ''pending'' # map (\<lambda>c. depth_running (call_progress c) ''processing'') body"
  have sub: "set body \<subseteq> set (fst (processVideo e))"
    using s by (cases "snd (processVideo e)") auto
  have "set ?ST \<subseteq> set ?D \<union> set ?tail"
  proof (cases "snd (processVideo e)")
    case (Some m)
    have "?ST = ?D"
      using s [unfolded Some option.case] by (rule conjunct2)
    then show ?thesis by (simp only: Un_upper1)
  next
    case None
    have "?ST = ?D @ ?tail"
      using s [unfolded None option.case] by (rule conjunct2)
    then show ?thesis by (simp only: set_append subset_refl)
  qed
  with assms have "ss \<in> set ?D \<or> ss \<in> set ?tail"
    by blast
  moreover have "ss = depth_running 0 ''pending''
      \<or> (\<exists>c\<in>set body. ss = depth_running (call_progress c) ''processing'')"
    if "ss \<in> set ?D"
    using that by auto
  ultimately show ?thesis
    using sub by blast
qed

lemma run_job_stage_set:
  assumes "t \<in> set (run_job clock e (submit now jid f jobs))"
  shows "stages_of jid t \<in> set (initial_stages # stage_trace (fst (processVideo e)) initial_stages)"
proof -
  let ?ST = "initial_stages # stage_trace (fst (processVideo e)) initial_stages"
  from assms have "stages_of jid t \<in> set (map (stages_of jid) (run_job clock e (submit now jid f jobs)))"
    by simp
  then have "stages_of jid t \<in> set (?ST @ [last ?ST])"
    by (simp only: run_job_stages)
  moreover have "last ?ST \<in> set ?ST"
    by (rule last_in_set) simp
  ultimately show ?thesis
    by auto
qed

subsection \<open>Progress values of the calls\<close>

lemma extraction_progress_upper: "extraction_progress pc \<le> 37"
  by (simp add: extraction_progress_def Let_def min_def split: option.splits)

lemma extraction_progress_lower:
  "(\<forall>x. pc = Some x \<longrightarrow> 0 \<le> x) \<Longrightarrow> 10 \<le> extraction_progress pc"
  by (auto simp: extraction_progress_def Let_def min_def split: option.splits)

lemma extractFrames_upper:
  "c \<in> set (fst (extractFrames e)) \<Longrightarrow> call_progress c \<le> 100"
  using extraction_progress_upper
  by (auto simp: extractFrames_def order_trans [of _ 37 100] split: option.splits)

lemma extractFrames_lower:
  assumes "\<forall>x. Some x \<in> set (ffmpeg_percents e) \<longrightarrow> 0 \<le> x"
    and "c \<in> set (fst (extractFrames e))"
  shows "0 \<le> call_progress c"
proof -
  have "10 \<le> extraction_progress pc" if "pc \<in> set (ffmpeg_percents e)" for pc
    using assms(1) that by (intro extraction_progress_lower) auto
  then have "0 \<le> extraction_progress pc" if "pc \<in> set (ffmpeg_percents e)" for pc
    using that by force
  with assms(2) show ?thesis
    by (auto simp: extractFrames_def split: option.splits)
qed

lemma depth_frame_bounds:
  assumes "i < n" and "c \<in> set (depth_frame e n i)"
  shows "0 \<le> call_progress c \<and> call_progress c \<le> 100"
proof -
  define q :: rat where "q = of_nat (i + 1) / of_nat n"
  have "q \<le> 1" and "0 \<le> q"
    using assms(1) by (simp_all add: q_def divide_le_eq_1)
  then have "0 \<le> 50 + q * 50 \<and> 50 + q * 50 \<le> 100"
    by simp
  with assms(2) show ?thesis
    by (auto simp: depth_frame_def q_def split: if_splits)
qed

lemma generateDepthMaps_bounds:
  assumes "c \<in> set (fst (generateDepthMaps e))"
  shows "0 \<le> call_progress c \<and> call_progress c \<le> 100"
proof (cases "readdir_result e")
  case (Inl msg)
  with assms show ?thesis by (simp add: generateDepthMaps_def)
next
  case (Inr frameFiles)
  define n where "n = min (length (filter (\<lambda>f. endsWith f ''.png'') frameFiles)) 5"
  from assms Inr have "c = UpdateProgress ''depth'' 50 ''processing''
      \<or> c = UpdateProgress ''depth'' 100 ''completed''
      \<or> (\<exists>i<n. c \<in> set (depth_frame e n i))"
    by (auto simp: generateDepthMaps_def Let_def n_def [symmetric] split: if_splits)
  moreover have "0 \<le> call_progress c \<and> call_progress c \<le> 100"
    if "\<exists>i<n. c \<in> set (depth_frame e n i)"
    using that depth_frame_bounds by blast
  ultimately show ?thesis
    by auto
qed

lemma simulated_bounds:
  "list_all (\<lambda>c. 0 \<le> call_progress c \<and> call_progress c \<le> 100) (fst simulated_stages)"
  by (simp add: simulated_calls)

lemma processVideo_calls:
  "set (fst (processVideo e)) \<subseteq>
     set (fst (extractFrames e)) \<union> set (fst (generateDepthMaps e)) \<union> set (fst simulated_stages)"
  by (auto simp: processVideo_def and_then_def initialize_def simulated_stages_def
      split: option.splits)

lemma processVideo_upper:
  "c \<in> set (fst (processVideo e)) \<Longrightarrow> call_progress c \<le> 100"
  using processVideo_calls [of e] extractFrames_upper [of c e] generateDepthMaps_bounds [of c e]
    simulated_bounds
  by (auto simp: list_all_iff)

lemma processVideo_lower:
  assumes "\<forall>x. Some x \<in> set (ffmpeg_percents e) \<longrightarrow> 0 \<le> x"
    and "c \<in> set (fst (processVideo e))"
  shows "0 \<le> call_progress c"
  using processVideo_calls [of e] extractFrames_lower [OF assms(1), of c]
    generateDepthMaps_bounds [of c e] simulated_bounds assms(2)
  by (auto simp: list_all_iff)

subsection \<open>The stage arrays seen during a run\<close>

lemma tail_in_order:
  "list_all in_order (depth_running 100 ''completed''
      # stage_trace (fst simulated_stages) (depth_running 100 ''completed''))"
  by code_simp

lemma tail_names:
  "list_all (\<lambda>ss. map name ss = [''depth'', ''stereo'', ''outpainting'', ''blur'', ''upscaling''])
     (depth_running 100 ''completed''
      # stage_trace (fst simulated_stages) (depth_running 100 ''completed''))"
  by code_simp

lemma tail_bounds:
  "list_all (list_all (\<lambda>s. 0 \<le> progress s \<and> progress s \<le> 100))
     (depth_running 100 ''completed''
      # stage_trace (fst simulated_stages) (depth_running 100 ''completed''))"
  by code_simp

lemma tail_keeps_completed:
  "successively keeps_completed
     (depth_running 100 ''completed''
      # stage_trace (fst simulated_stages) (depth_running 100 ''completed''))"
  by code_simp

lemma in_order_nth:
  "in_order ss \<Longrightarrow> Suc k < length ss \<Longrightarrow> status (ss ! Suc k) \<noteq> ''pending'' \<Longrightarrow>
   status (ss ! k) = ''completed''"
proof (induction ss arbitrary: k rule: in_order.induct)
  case (1 a b rest)
  then show ?case by (cases k) auto
qed simp_all

lemma depth_running_in_order:
  "in_order (depth_running p st) \<and>
   map name (depth_running p st) = [''depth'', ''stereo'', ''outpainting'', ''blur'', ''upscaling'']"
  by (simp add: depth_running_def)

lemma trace_in_order:
  assumes "ss \<in> set (initial_stages # stage_trace (fst (processVideo e)) initial_stages)"
  shows "in_order ss \<and> map name ss = [''depth'', ''stereo'', ''outpainting'', ''blur'', ''upscaling'']"
proof -
  consider "ss = depth_running 0 ''pending''"
    | c where "ss = depth_running (call_progress c) ''processing''"
    | "ss \<in> set (depth_running 100 ''completed''
                # stage_trace (fst simulated_stages) (depth_running 100 ''completed''))"
    using trace_cases [OF assms] by blast
  then show ?thesis
  proof cases
    case 1
    then show ?thesis by (simp only: depth_running_in_order)
  next
    case 2
    then show ?thesis by (simp only: depth_running_in_order)
  next
    case 3
    then show ?thesis
      using tail_in_order tail_names unfolding list_all_iff by blast
  qed
qed

lemma depth_running_bounds:
  "s \<in> set (depth_running p st) \<Longrightarrow> (p \<le> 100 \<longrightarrow> progress s \<le> 100) \<and> (0 \<le> p \<longrightarrow> 0 \<le> progress s)"
  by (auto simp: depth_running_def)

lemma trace_upper:
  assumes "ss \<in> set (initial_stages # stage_trace (fst (processVideo e)) initial_stages)"
    and "s \<in> set ss"
  shows "progress s \<le> 100"
proof -
  consider "ss = depth_running 0 ''pending''"
    | c where "c \<in> set (fst (processVideo e))" "ss = depth_running (call_progress c) ''processing''"
    | "ss \<in> set (depth_running 100 ''completed''
                # stage_trace (fst simulated_stages) (depth_running 100 ''completed''))"
    using trace_cases [OF assms(1)] by blast
  then show ?thesis
  proof cases
    case 1
    with assms(2) show ?thesis
      using depth_running_bounds [of s 0 "''pending''"] by simp
  next
    case 2
    with assms(2) show ?thesis
      using depth_running_bounds [of s "call_progress c" "''processing''"] processVideo_upper [of c e]
      by simp
  next
    case 3
    with assms(2) show ?thesis
      using tail_bounds unfolding list_all_iff by blast
  qed
qed

lemma trace_lower:
  assumes "\<forall>x. Some x \<in> set (ffmpeg_percents e) \<longrightarrow> 0 \<le> x"
    and "ss \<in> set (initial_stages # stage_trace (fst (processVideo e)) initial_stages)"
    and "s \<in> set ss"
  shows "0 \<le> progress s"
proof -
  consider "ss = depth_running 0 ''pending''"
    | c where "c \<in> set (fst (processVideo e))" "ss = depth_running (call_progress c) ''processing''"
    | "ss \<in> set (depth_running 100 ''completed''
                # stage_trace (fst simulated_stages) (depth_running 100 ''completed''))"
    using trace_cases [OF assms(2)] by blast
  then show ?thesis
  proof cases
    case 1
    with assms(3) show ?thesis
      using depth_running_bounds [of s 0 "''pending''"] by simp
  next
    case 2
    with assms(3) show ?thesis
      using depth_running_bounds [of s "call_progress c" "''processing''"]
        processVideo_lower [OF assms(1), of c]
      by simp
  next
    case 3
    with assms(3) show ?thesis
      using tail_bounds unfolding list_all_iff by blast
  qed
qed

subsection \<open>Completed stages stay completed\<close>

lemma keeps_completed_refl: "keeps_completed ss ss"
  by (simp add: keeps_completed_def list_all2_same)

lemma keeps_completed_trans:
  "keeps_completed a b \<Longrightarrow> keeps_completed b c \<Longrightarrow> keeps_completed a c"
  unfolding keeps_completed_def
  by (erule (1) list_all2_trans [rotated]) simp

lemma keeps_completed_nth:
  "keeps_completed a b \<Longrightarrow> k < length a \<Longrightarrow> status (a ! k) = ''completed'' \<Longrightarrow>
   status (b ! k) = ''completed''"
  by (simp add: keeps_completed_def list_all2_conv_all_nth)

lemma depth_running_keeps:
  assumes "st \<noteq> ''completed''" and "length ss = 5"
  shows "keeps_completed (depth_running p st) ss"
proof -
  from assms(2) obtain a b c d e where "ss = [a, b, c, d, e]"
    by (auto simp: length_Suc_conv eval_nat_numeral)
  with assms(1) show ?thesis
    by (simp add: keeps_completed_def depth_running_def)
qed

lemma successively_prefix:
  assumes "\<forall>x\<in>set xs. \<forall>y\<in>set (xs @ ys). R x y" and "successively R ys"
  shows "successively R (xs @ ys)"
  using assms
proof (induction xs)
  case Nil
  then show ?case by simp
next
  case (Cons x xs)
  have "successively R (xs @ ys)"
    using Cons.prems by (intro Cons.IH) auto
  moreover have "R x y" if "y \<in> set (xs @ ys)" for y
    using Cons.prems(1) that by auto
  then have "R x (hd (xs @ ys))" if "xs @ ys \<noteq> []"
    using that hd_in_set by blast
  ultimately show ?case
    by (simp only: append_Cons successively_Cons) blast
qed

lemma trace_keeps_completed:
  "successively keeps_completed (initial_stages # stage_trace (fst (processVideo e)) initial_stages)"
proof -
  let ?ST = "initial_stages # stage_trace (fst (processVideo e)) initial_stages"
  let ?tail = "depth_running 100 ''completed''
                # stage_trace (fst simulated_stages) (depth_running 100 ''completed'')"
  obtain body where
    s: "case snd (processVideo e) of
          Some m \<Rightarrow> fst (processVideo e) = body \<and>
            ?ST = depth_running 0 ''pending'' # map (\<lambda>c. depth_running (call_progress c) ''processing'') body
        | None \<Rightarrow>
            fst (processVideo e) = body @ UpdateProgress ''depth'' 100 ''completed'' # fst simulated_stages \<and>
            ?ST = (depth_running 0 ''pending'' # map (\<lambda>c. depth_running (call_progress c) ''processing'') body)
              @ ?tail"
    using full_trace_shape [of e] by (elim exE conjE)
  let ?D = "depth_running 0 ''pending'' # map (\<lambda>c. depth_running (call_progress c) ''processing'') body"
  have len: "length y = 5" if "y \<in> set ?ST" for y
  proof -
    have "length (map name y) = 5"
      using trace_in_order [OF that] by simp
    then show ?thesis by simp
  qed
  have D: "keeps_completed x y" if "x \<in> set ?D" and "y \<in> set ?ST" for x y
  proof -
    from that(1) obtain p st where "x = depth_running p st" and "st \<noteq> ''completed''"
      by auto
    with len [OF that(2)] show ?thesis
      by (simp add: depth_running_keeps)
  qed
  show ?thesis
  proof (cases "snd (processVideo e)")
    case (Some m)
    have eq: "?ST = ?D @ []"
      using s [unfolded Some option.case, THEN conjunct2] by (simp only: append_Nil2)
    have "successively keeps_completed (?D @ [])"
    proof (rule successively_prefix)
      show "\<forall>x\<in>set ?D. \<forall>y\<in>set (?D @ []). keeps_completed x y"
        using D by (simp only: eq [symmetric]) blast
      show "successively keeps_completed []"
        by simp
    qed
    then show ?thesis by (simp only: eq)
  next
    case None
    have eq: "?ST = ?D @ ?tail"
      using s [unfolded None option.case] by (rule conjunct2)
    have "successively keeps_completed (?D @ ?tail)"
    proof (rule successively_prefix)
      show "\<forall>x\<in>set ?D. \<forall>y\<in>set (?D @ ?tail). keeps_completed x y"
        using D by (simp only: eq [symmetric]) blast
      show "successively keeps_completed ?tail"
        by (rule tail_keeps_completed)
    qed
    then show ?thesis by (simp only: eq)
  qed
qed

lemma successively_snoc_last:
  assumes "successively R xs" and "\<And>x. R x x"
  shows "successively R (xs @ [last xs])"
  using assms by (simp add: successively_append_iff)

lemma sorted_wrt_keeps_completed:
  "sorted_wrt keeps_completed
     ((initial_stages # stage_trace (fst (processVideo e)) initial_stages)
       @ [last (initial_stages # stage_trace (fst (processVideo e)) initial_stages)])"
proof -
  have "transp keeps_completed"
    by (rule transpI) (rule keeps_completed_trans)
  moreover have "successively keeps_completed
     ((initial_stages # stage_trace (fst (processVideo e)) initial_stages)
       @ [last (initial_stages # stage_trace (fst (processVideo e)) initial_stages)])"
    by (rule successively_snoc_last [OF trace_keeps_completed keeps_completed_refl])
  ultimately show ?thesis
    by (simp only: successively_conv_sorted_wrt)
qed

subsection \<open>The first call of each stage\<close>

lemma find_none_depth:
  assumes "\<forall>c\<in>set body. call_stage c = ''depth''" and "n \<noteq> ''depth''"
  shows "find (\<lambda>c. call_stage c = n) (body @ rest) = find (\<lambda>c. call_stage c = n) rest"
  using assms by (induction body) auto

lemma find_set_stage:
  "n \<in> set (map name ss) \<Longrightarrow>
   find (\<lambda>x. name x = n) (set_stage n p st ss) = Some \<lparr>name = n, progress = p, status = st\<rparr>"
  by (induction ss) auto

section \<open>Properties of a job's run\<close>

text \<open>
  Claim C4. In every state a status query can see during a job, the stage array lists
  the stages in the fixed pipeline order, and a stage that has left \<^verbatim>\<open>'pending'\<close>
  has a predecessor that is \<^verbatim>\<open>'completed'\<close>: no stage is processing or finished
  while the stage before it is still pending or running.
\<close>

theorem stages_in_pipeline_order:
  "\<forall>t\<in>set (run_job clock e (submit now jid f jobs)).
     map name (stages_of jid t) = [''depth'', ''stereo'', ''outpainting'', ''blur'', ''upscaling''] \<and>
     (\<forall>k. Suc k < length (stages_of jid t) \<longrightarrow> status (stages_of jid t ! Suc k) \<noteq> ''pending''
        \<longrightarrow> status (stages_of jid t ! k) = ''completed'')"
proof
  fix t
  assume "t \<in> set (run_job clock e (submit now jid f jobs))"
  then have "in_order (stages_of jid t) \<and>
      map name (stages_of jid t) = [''depth'', ''stereo'', ''outpainting'', ''blur'', ''upscaling'']"
    by (intro trace_in_order run_job_stage_set)
  then show "map name (stages_of jid t) = [''depth'', ''stereo'', ''outpainting'', ''blur'', ''upscaling''] \<and>
     (\<forall>k. Suc k < length (stages_of jid t) \<longrightarrow> status (stages_of jid t ! Suc k) \<noteq> ''pending''
        \<longrightarrow> status (stages_of jid t ! k) = ''completed'')"
    using in_order_nth by blast
qed

theorem stages_in_pipeline_order_witness:
  "sample_run env_two_frames ! 12 \<in> set (sample_run env_two_frames) \<and>
   Suc 0 < length (stages_of ''job-1'' (sample_run env_two_frames ! 12)) \<and>
   status (stages_of ''job-1'' (sample_run env_two_frames ! 12) ! Suc 0) \<noteq> ''pending'' \<and>
   status (stages_of ''job-1'' (sample_run env_two_frames ! 12) ! 0) = ''completed''"
proof -
  let ?t = "sample_run env_two_frames ! 12"
  have n: "length (fst (processVideo env_two_frames)) = 45"
    by code_simp
  then have "12 < length (sample_run env_two_frames)"
    by (simp add: sample_run_def length_run_job)
  then have m: "?t \<in> set (sample_run env_two_frames)"
    by (rule nth_mem)
  have "map status ((initial_stages # stage_trace (fst (processVideo env_two_frames)) initial_stages) ! 12)
      = [''completed'', ''processing'', ''pending'', ''pending'', ''pending'']"
    by code_simp
  then have s: "map status (stages_of ''job-1'' ?t)
      = [''completed'', ''processing'', ''pending'', ''pending'', ''pending'']"
    using sample_run_stages [OF n, of 12] by simp
  have l: "Suc 0 < length (stages_of ''job-1'' ?t)"
    using arg_cong [OF s, of length] by simp
  have p: "status (stages_of ''job-1'' ?t ! Suc 0) \<noteq> ''pending''"
    using arg_cong [OF s, of "\<lambda>xs. xs ! Suc 0"] l by simp
  from stages_in_pipeline_order [of "\<lambda>k. k" env_two_frames 0 "''job-1''" sample_file Map.empty,
      folded sample_run_def, rule_format, OF m]
  have "status (stages_of ''job-1'' ?t ! 0) = ''completed''"
    using l p by blast
  with m l p show ?thesis by blast
qed

text \<open>
  Claim C3, as amended. Every progress value recorded during a job is at most 100,
  whatever percentages ffmpeg reports; when the reported percentages are not negative,
  every recorded value is also at least 0; and a stage that is \<^verbatim>\<open>'completed'\<close> in some
  state of the job is \<^verbatim>\<open>'completed'\<close> in every later state. Nothing is said about the
  value recorded for a negative percentage.
\<close>

theorem progress_bounds_and_completion:
  "(\<forall>t\<in>set (run_job clock e (submit now jid f jobs)). \<forall>s\<in>set (stages_of jid t). progress s \<le> 100) \<and>
   ((\<forall>x. Some x \<in> set (ffmpeg_percents e) \<longrightarrow> 0 \<le> x) \<longrightarrow>
      (\<forall>t\<in>set (run_job clock e (submit now jid f jobs)). \<forall>s\<in>set (stages_of jid t). 0 \<le> progress s)) \<and>
   (\<forall>i j k. i \<le> j \<and> j < length (run_job clock e (submit now jid f jobs))
        \<and> k < length (stages_of jid (run_job clock e (submit now jid f jobs) ! i))
        \<and> status (stages_of jid (run_job clock e (submit now jid f jobs) ! i) ! k) = ''completed''
      \<longrightarrow> status (stages_of jid (run_job clock e (submit now jid f jobs) ! j) ! k) = ''completed'')"
proof (intro conjI ballI impI allI)
  fix t s
  assume "t \<in> set (run_job clock e (submit now jid f jobs))" and "s \<in> set (stages_of jid t)"
  then show "progress s \<le> 100"
    using trace_upper run_job_stage_set by blast
next
  fix t s
  assume "\<forall>x. Some x \<in> set (ffmpeg_percents e) \<longrightarrow> 0 \<le> x"
    and "t \<in> set (run_job clock e (submit now jid f jobs))" and "s \<in> set (stages_of jid t)"
  then show "0 \<le> progress s"
    using trace_lower run_job_stage_set by blast
next
  fix i j k
  let ?T = "run_job clock e (submit now jid f jobs)"
  let ?S = "map (stages_of jid) ?T"
  assume a: "i \<le> j \<and> j < length ?T \<and> k < length (stages_of jid (?T ! i))
        \<and> status (stages_of jid (?T ! i) ! k) = ''completed''"
  have sw: "sorted_wrt keeps_completed ?S"
    by (simp only: run_job_stages sorted_wrt_keeps_completed)
  have "keeps_completed (?S ! i) (?S ! j)"
  proof (cases "i = j")
    case True
    then show ?thesis by (simp only: keeps_completed_refl)
  next
    case False
    with a have "i < j" and "j < length ?S" by simp_all
    with sw show ?thesis by (simp only: sorted_wrt_nth_less)
  qed
  moreover have "?S ! i = stages_of jid (?T ! i)" and "?S ! j = stages_of jid (?T ! j)"
    using a by simp_all
  ultimately have "keeps_completed (stages_of jid (?T ! i)) (stages_of jid (?T ! j))"
    by simp
  with a show "status (stages_of jid (?T ! j) ! k) = ''completed''"
    using keeps_completed_nth by blast
qed

theorem progress_bounds_and_completion_witness:
  "ffmpeg_percents env_two_frames = [Some 50, None, Some 200] \<and>
   sample_run env_two_frames ! 4 \<in> set (sample_run env_two_frames) \<and>
   progress (stages_of ''job-1'' (sample_run env_two_frames ! 4) ! 0) = 37 \<and>
   progress (stages_of ''job-1'' (sample_run env_two_frames ! 4) ! 0) \<le> 100 \<and>
   0 \<le> progress (stages_of ''job-1'' (sample_run env_two_frames ! 4) ! 0) \<and>
   status (stages_of ''job-1'' (sample_run env_two_frames ! 9) ! 0) = ''completed'' \<and>
   status (stages_of ''job-1'' (sample_run env_two_frames ! 12) ! 0) = ''completed''"
proof -
  let ?T = "sample_run env_two_frames"
  have pcs: "ffmpeg_percents env_two_frames = [Some 50, None, Some 200]"
    by (simp add: env_two_frames_def)
  have n: "length (fst (processVideo env_two_frames)) = 45"
    by code_simp
  then have len: "length ?T = 47"
    by (simp add: sample_run_def length_run_job)
  then have m: "?T ! 4 \<in> set ?T"
    by simp
  have "(initial_stages # stage_trace (fst (processVideo env_two_frames)) initial_stages) ! 4
      = depth_running 37 ''processing''"
    by code_simp
  then have s4: "stages_of ''job-1'' (?T ! 4) = depth_running 37 ''processing''"
    using sample_run_stages [OF n, of 4] by simp
  have "map status ((initial_stages # stage_trace (fst (processVideo env_two_frames)) initial_stages) ! 9)
      = [''completed'', ''processing'', ''pending'', ''pending'', ''pending'']"
    by code_simp
  then have s9: "map status (stages_of ''job-1'' (?T ! 9))
      = [''completed'', ''processing'', ''pending'', ''pending'', ''pending'']"
    using sample_run_stages [OF n, of 9] by simp
  have l9: "0 < length (stages_of ''job-1'' (?T ! 9))"
    using arg_cong [OF s9, of length] by simp
  have c9: "status (stages_of ''job-1'' (?T ! 9) ! 0) = ''completed''"
    using arg_cong [OF s9, of "\<lambda>xs. xs ! 0"] l9 by simp
  have mem: "stages_of ''job-1'' (?T ! 4) ! 0 \<in> set (stages_of ''job-1'' (?T ! 4))"
    by (simp add: s4 depth_running_def)
  have v: "progress (stages_of ''job-1'' (?T ! 4) ! 0) = 37"
    by (simp add: s4 depth_running_def)
  have nn: "\<forall>x. Some x \<in> set (ffmpeg_percents env_two_frames) \<longrightarrow> 0 \<le> x"
    by (auto simp: pcs)
  have hyp: "9 \<le> (12 :: nat) \<and> 12 < length ?T \<and> 0 < length (stages_of ''job-1'' (?T ! 9))
      \<and> status (stages_of ''job-1'' (?T ! 9) ! 0) = ''completed''"
    using len l9 c9 by simp
  note inst = progress_bounds_and_completion
      [of "\<lambda>k. k" env_two_frames 0 "''job-1''" sample_file Map.empty, folded sample_run_def]
  have a: "progress (stages_of ''job-1'' (?T ! 4) ! 0) \<le> 100"
    using inst [THEN conjunct1, rule_format, OF m mem] .
  have b: "0 \<le> progress (stages_of ''job-1'' (?T ! 4) ! 0)"
    using inst [THEN conjunct2, THEN conjunct1] nn m mem by blast
  have c: "status (stages_of ''job-1'' (?T ! 12) ! 0) = ''completed''"
    using inst [THEN conjunct2, THEN conjunct2, rule_format, OF hyp] .
  from pcs m v a b c c9 show ?thesis by blast
qed

text \<open>Claim C3 as stated fails: a reported percentage of \<open>-100\<close> is recorded as
  progress \<open>-20\<close>. Only the upper end is capped, by \<^verbatim>\<open>Math.min(..., 90)\<close>.\<close>

theorem negative_progress_recorded:
  "progress (hd (stages_of ''job-1'' (sample_run env_negative_percent ! 2))) = - 20 \<and>
   \<not> 0 \<le> progress (hd (stages_of ''job-1'' (sample_run env_negative_percent ! 2)))"
proof -
  have n: "length (fst (processVideo env_negative_percent)) = 43"
    by code_simp
  have "(initial_stages # stage_trace (fst (processVideo env_negative_percent)) initial_stages) ! 2
      = depth_running (- 20) ''processing''"
    by code_simp
  then have "stages_of ''job-1'' (sample_run env_negative_percent ! 2) = depth_running (- 20) ''processing''"
    using sample_run_stages [OF n, of 2] by simp
  then show ?thesis
    by (simp add: depth_running_def)
qed

text \<open>
  Claim C5. During a job the status stored in the registry is \<^verbatim>\<open>'processing'\<close> in every
  state but the last, which is \<^verbatim>\<open>'completed'\<close> or \<^verbatim>\<open>'failed'\<close>; so a status other
  than \<^verbatim>\<open>'processing'\<close> never changes again during the run. Outside the job's own
  handler nothing writes the status: no call of \<^verbatim>\<open>updateProgress\<close> changes the status
  of any job, an upload under another id leaves it alone, and so does the handler of
  another job's pipeline.
\<close>

theorem job_status_monotonic:
  "map (status_of jid) (run_job clock e (submit now jid f jobs)) =
     replicate (Suc (length (fst (processVideo e)))) ''processing''
       @ [case snd (processVideo e) of None \<Rightarrow> ''completed'' | Some msg \<Rightarrow> ''failed''] \<and>
   (\<forall>i j. i \<le> j \<and> j < length (run_job clock e (submit now jid f jobs))
       \<and> status_of jid (run_job clock e (submit now jid f jobs) ! i) \<noteq> ''processing''
      \<longrightarrow> status_of jid (run_job clock e (submit now jid f jobs) ! j)
            = status_of jid (run_job clock e (submit now jid f jobs) ! i)) \<and>
   status_of i (updateProgress now' n p st s) = status_of i s \<and>
   (i \<noteq> jid' \<longrightarrow> status_of i (submit now' jid' f' jobs') = status_of i (this, jobs')) \<and>
   (jobId (fst s) \<noteq> i \<longrightarrow> status_of i (settle now' r s) = status_of i s)"
proof (intro conjI allI impI)
  let ?T = "run_job clock e (submit now jid f jobs)"
  let ?n = "Suc (length (fst (processVideo e)))"
  let ?fin = "case snd (processVideo e) of None \<Rightarrow> ''completed'' | Some msg \<Rightarrow> ''failed''"
  show sh: "map (status_of jid) ?T = replicate ?n ''processing'' @ [?fin]"
    by (rule run_job_statuses)
  fix i j
  assume a: "i \<le> j \<and> j < length ?T \<and> status_of jid (?T ! i) \<noteq> ''processing''"
  have len: "length ?T = Suc ?n"
    using arg_cong [OF sh, of length] by simp
  have nth: "status_of jid (?T ! m) = (replicate ?n ''processing'' @ [?fin]) ! m" if "m < length ?T" for m
    using that nth_map [of m ?T "status_of jid"] by (simp only: sh)
  have "i = ?n"
  proof (rule ccontr)
    assume "i \<noteq> ?n"
    with a len have "i < ?n" by simp
    then have "(replicate ?n ''processing'' @ [?fin]) ! i = ''processing''"
      by (simp add: nth_append del: replicate.simps)
    with a nth [of i] len show False by simp
  qed
  with a len have "j = i" by simp
  then show "status_of jid (?T ! j) = status_of jid (?T ! i)" by simp
qed (simp_all add: updateProgress_status_of status_of_submit_other status_of_settle_other)

theorem job_status_monotonic_witness:
  "map (status_of ''job-1'') (sample_run env_no_frames)
     = [''processing'', ''processing'', ''processing'', ''processing'', ''processing'', ''failed''] \<and>
   status_of ''job-1'' (sample_run env_no_frames ! 5) \<noteq> ''processing'' \<and>
   status_of ''job-1'' (sample_run env_no_frames ! 5) = ''failed'' \<and>
   status_of ''job-2'' (submit 3 ''job-1'' sample_file [''job-2'' \<mapsto> then_handler 8 (new_job 6 ''job-2'' sample_file)])
     = ''completed'' \<and>
   status_of ''job-2'' (settle 9 (Some ''boom'')
       (new_pipeline ''job-1'' ''uploads/a'', [''job-2'' \<mapsto> then_handler 8 (new_job 6 ''job-2'' sample_file)]))
     = ''completed'' \<and>
   status_of ''job-2'' (updateProgress 4 ''depth'' 10 ''processing''
       (new_pipeline ''job-2'' ''uploads/b'', [''job-2'' \<mapsto> then_handler 8 (new_job 6 ''job-2'' sample_file)]))
     = ''completed''"
proof -
  let ?T = "sample_run env_no_frames"
  let ?J = "then_handler 8 (new_job 6 ''job-2'' sample_file)"
  let ?s1 = "(new_pipeline ''job-1'' ''uploads/a'', [''job-2'' \<mapsto> ?J])"
  let ?s2 = "(new_pipeline ''job-2'' ''uploads/b'', [''job-2'' \<mapsto> ?J])"
  note inst = job_status_monotonic [where clock = "\<lambda>k. k" and e = env_no_frames and now = 0
      and jid = "''job-1''" and f = sample_file and jobs = Map.empty, folded sample_run_def]
  have n: "length (fst (processVideo env_no_frames)) = 4"
    by code_simp
  have o: "snd (processVideo env_no_frames) = Some ''No frames extracted from video''"
    by code_simp
  have sh: "map (status_of ''job-1'') ?T
     = [''processing'', ''processing'', ''processing'', ''processing'', ''processing'', ''failed'']"
    using inst [THEN conjunct1] by (simp add: n o eval_nat_numeral)
  have len: "length ?T = 6"
    using arg_cong [OF sh, of length] by simp
  have f: "status_of ''job-1'' (?T ! 5) = ''failed''"
    using arg_cong [OF sh, of "\<lambda>xs. xs ! 5"] len by simp
  have b1: "status_of ''job-2'' ?s1 = ''completed''" and b2: "status_of ''job-2'' ?s2 = ''completed''"
    by (simp_all add: status_of_def then_handler_def)
  have c: "status_of ''job-2'' (submit 3 ''job-1'' sample_file [''job-2'' \<mapsto> ?J]) = ''completed''"
    using job_status_monotonic [where i = "''job-2''" and jid' = "''job-1''" and now' = 3 and f' = sample_file
        and jobs' = "[''job-2'' \<mapsto> ?J]" and this = "new_pipeline ''job-1'' ''uploads/a''",
        THEN conjunct2, THEN conjunct2, THEN conjunct2, THEN conjunct1]
    by (simp add: b1)
  have other: "jobId (fst ?s1) \<noteq> ''job-2''"
    by (simp add: new_pipeline_def)
  have d: "status_of ''job-2'' (settle 9 (Some ''boom'') ?s1) = ''completed''"
    using job_status_monotonic [where i = "''job-2''" and s = ?s1 and now' = 9 and r = "Some ''boom''",
        THEN conjunct2, THEN conjunct2, THEN conjunct2, THEN conjunct2, THEN mp, OF other]
    by (simp only: b1)
  have e: "status_of ''job-2'' (updateProgress 4 ''depth'' 10 ''processing'' ?s2) = ''completed''"
    using job_status_monotonic [where i = "''job-2''" and s = ?s2 and now' = 4 and n = "''depth''"
        and p = 10 and st = "''processing''", THEN conjunct2, THEN conjunct2, THEN conjunct1]
    by (simp add: b2)
  from sh f c d e show ?thesis by simp
qed

text \<open>
  Claim C1, as amended. When a stage method throws (the directories having been made),
  the job ends with status \<^verbatim>\<open>'failed'\<close> and \<^verbatim>\<open>error\<close> equal to the message thrown;
  the stage that was running, \<^verbatim>\<open>depth\<close>, keeps status \<^verbatim>\<open>'processing'\<close> and the
  progress of the last call made; the four later stages are still \<^verbatim>\<open>'pending'\<close> with
  progress 0.
\<close>

theorem failed_run_final_record:
  assumes "mkdir_error e = None" and "snd (processVideo e) = Some msg"
  shows "\<exists>j. snd (last (run_job clock e (submit now jid f jobs))) jid = Some j
     \<and> job_status j = ''failed'' \<and> error j = Some msg
     \<and> job_stages j =
         [\<lparr>name = ''depth'', progress = call_progress (last (fst (processVideo e))), status = ''processing''\<rparr>,
          \<lparr>name = ''stereo'', progress = 0, status = ''pending''\<rparr>,
          \<lparr>name = ''outpainting'', progress = 0, status = ''pending''\<rparr>,
          \<lparr>name = ''blur'', progress = 0, status = ''pending''\<rparr>,
          \<lparr>name = ''upscaling'', progress = 0, status = ''pending''\<rparr>]"
proof -
  let ?s0 = "submit now jid f jobs"
  let ?cs = "fst (processVideo e)"
  let ?l = "last (?s0 # run_calls clock 0 ?cs ?s0)"
  let ?ST = "initial_stages # stage_trace ?cs initial_stages"
  have id: "jobId (fst ?l) = jid"
    using run_calls_last_fst [of ?s0 clock 0 ?cs] by (simp only: submit_simps)
  have reg: "jobId (fst ?l) \<in> dom (snd ?l)"
    by (simp only: id run_calls_last_dom submit_simps)
  have "map (stages_of jid) (?s0 # run_calls clock 0 ?cs ?s0) = ?ST"
    using run_calls_stages_of [of ?s0 clock 0 ?cs] by (simp add: submit_simps)
  then have "stages_of jid ?l = last ?ST"
    using last_map [of "?s0 # run_calls clock 0 ?cs ?s0" "stages_of jid"] by simp
  also have "\<dots> = last (depth_running 0 ''pending''
             # map (\<lambda>c. depth_running (call_progress c) ''processing'') ?cs)"
    by (simp only: failed_trace(1) [OF assms])
  also have "\<dots> = depth_running (call_progress (last ?cs)) ''processing''"
    using failed_trace(2) [OF assms] by (simp add: last_map)
  finally have st: "stages_of jid ?l = depth_running (call_progress (last ?cs)) ''processing''" .
  from settle_failed [OF reg, of "clock (length ?cs)" msg] obtain j where
    "snd (settle (clock (length ?cs)) (Some msg) ?l) jid = Some j" and "job_status j = ''failed''"
    and "error j = Some msg" and "job_stages j = stages_of jid ?l"
    unfolding id by blast
  then show ?thesis
    by (simp add: run_job_last assms(2) st depth_running_def del: last.simps)
qed

theorem failed_run_final_record_witness:
  "mkdir_error env_no_frames = None \<and>
   snd (processVideo env_no_frames) = Some ''No frames extracted from video'' \<and>
   (\<exists>j. snd (last (sample_run env_no_frames)) ''job-1'' = Some j
     \<and> job_status j = ''failed'' \<and> error j = Some ''No frames extracted from video''
     \<and> job_stages j =
         [\<lparr>name = ''depth'', progress = 50, status = ''processing''\<rparr>,
          \<lparr>name = ''stereo'', progress = 0, status = ''pending''\<rparr>,
          \<lparr>name = ''outpainting'', progress = 0, status = ''pending''\<rparr>,
          \<lparr>name = ''blur'', progress = 0, status = ''pending''\<rparr>,
          \<lparr>name = ''upscaling'', progress = 0, status = ''pending''\<rparr>])"
proof -
  have a: "mkdir_error env_no_frames = None"
    by (simp add: env_no_frames_def)
  have b: "snd (processVideo env_no_frames) = Some ''No frames extracted from video''"
    by code_simp
  have c: "call_progress (last (fst (processVideo env_no_frames))) = 50"
    by code_simp
  show ?thesis
    using failed_run_final_record [OF a b, of "\<lambda>k. k" 0 "''job-1''" sample_file Map.empty] a b
    by (simp only: c sample_run_def)
qed

text \<open>Claim C1 as stated fails: after \<^verbatim>\<open>'No frames extracted from video'\<close> the job is
  \<^verbatim>\<open>'failed'\<close>, but the \<^verbatim>\<open>depth\<close> stage still reads \<^verbatim>\<open>'processing'\<close>. No code path
  writes \<^verbatim>\<open>'failed'\<close> into a stage.\<close>

theorem failed_stage_not_marked_failed:
  "snd (processVideo env_no_frames) = Some ''No frames extracted from video'' \<and>
   status_of ''job-1'' (last (sample_run env_no_frames)) = ''failed'' \<and>
   map status (stages_of ''job-1'' (last (sample_run env_no_frames)))
     = [''processing'', ''pending'', ''pending'', ''pending'', ''pending''] \<and>
   status (hd (stages_of ''job-1'' (last (sample_run env_no_frames)))) \<noteq> ''failed''"
  by code_simp

text \<open>
  Claim C8, as amended. The first call that names \<^verbatim>\<open>stereo\<close>, \<^verbatim>\<open>outpainting\<close>,
  \<^verbatim>\<open>blur\<close> or \<^verbatim>\<open>upscaling\<close> marks that stage \<^verbatim>\<open>'processing'\<close> with progress 0;
  the first call that names \<^verbatim>\<open>depth\<close> marks it \<^verbatim>\<open>'processing'\<close> with progress 10.
  A call of \<^verbatim>\<open>updateProgress\<close> for a stage of a registered job makes the registry show
  that stage with exactly the progress and status passed.
\<close>

theorem stage_first_call:
  "(mkdir_error e = None \<longrightarrow>
      find (\<lambda>c. call_stage c = ''depth'') (fst (processVideo e))
        = Some (UpdateProgress ''depth'' 10 ''processing'')) \<and>
   (snd (processVideo e) = None \<and> n \<in> {''stereo'', ''outpainting'', ''blur'', ''upscaling''} \<longrightarrow>
      find (\<lambda>c. call_stage c = n) (fst (processVideo e)) = Some (UpdateProgress n 0 ''processing'')) \<and>
   (jobId (fst s) \<in> dom (snd s) \<and> m \<in> set (map name (stages (fst s))) \<longrightarrow>
      find (\<lambda>x. name x = m) (stages_of (jobId (fst s)) (updateProgress now m p st s))
        = Some \<lparr>name = m, progress = p, status = st\<rparr>)"
proof (intro conjI impI)
  assume mk: "mkdir_error e = None"
  have "\<exists>rest. fst (processVideo e) = UpdateProgress ''depth'' 10 ''processing'' # rest"
    using mk
    by (cases "ffmpeg_error e"; cases "snd (generateDepthMaps e)")
       (simp_all add: processVideo_ffmpeg_fails processVideo_depth_fails processVideo_succeeds
          extractFrames_def)
  then show "find (\<lambda>c. call_stage c = ''depth'') (fst (processVideo e))
        = Some (UpdateProgress ''depth'' 10 ''processing'')"
    by auto
next
  assume a: "snd (processVideo e) = None \<and> n \<in> {''stereo'', ''outpainting'', ''blur'', ''upscaling''}"
  obtain body where
    b: "\<forall>c\<in>set body. call_stage c = ''depth'' \<and> call_status c = ''processing''" and
    s: "case snd (processVideo e) of
          Some m \<Rightarrow> fst (processVideo e) = body
        | None \<Rightarrow> fst (processVideo e) =
            body @ UpdateProgress ''depth'' 100 ''completed'' # fst simulated_stages"
    using processVideo_shape [of e] by (elim exE conjE)
  from a have none: "snd (processVideo e) = None" and nd: "n \<noteq> ''depth''"
    by auto
  have cs: "fst (processVideo e) = body @ UpdateProgress ''depth'' 100 ''completed'' # fst simulated_stages"
    using s [unfolded none option.case] .
  have "find (\<lambda>c. call_stage c = n) (fst (processVideo e))
      = find (\<lambda>c. call_stage c = n) (UpdateProgress ''depth'' 100 ''completed'' # fst simulated_stages)"
    unfolding cs using b nd by (intro find_none_depth) auto
  also have "\<dots> = find (\<lambda>c. call_stage c = n) (fst simulated_stages)"
    using nd by simp
  also have "\<dots> = Some (UpdateProgress n 0 ''processing'')"
    using a by (auto simp: simulated_calls)
  finally show "find (\<lambda>c. call_stage c = n) (fst (processVideo e)) = Some (UpdateProgress n 0 ''processing'')" .
next
  assume "jobId (fst s) \<in> dom (snd s) \<and> m \<in> set (map name (stages (fst s)))"
  then show "find (\<lambda>x. name x = m) (stages_of (jobId (fst s)) (updateProgress now m p st s))
        = Some \<lparr>name = m, progress = p, status = st\<rparr>"
    by (simp only: updateProgress_stages_of find_set_stage)
qed

theorem stage_first_call_witness:
  "mkdir_error env_two_frames = None \<and>
   snd (processVideo env_two_frames) = None \<and>
   find (\<lambda>c. call_stage c = ''depth'') (fst (processVideo env_two_frames))
     = Some (UpdateProgress ''depth'' 10 ''processing'') \<and>
   find (\<lambda>c. call_stage c = ''stereo'') (fst (processVideo env_two_frames))
     = Some (UpdateProgress ''stereo'' 0 ''processing'') \<and>
   find (\<lambda>x. name x = ''stereo'')
      (stages_of ''job-1'' (updateProgress 1 ''stereo'' 0 ''processing''
         (submit 0 ''job-1'' sample_file Map.empty)))
     = Some \<lparr>name = ''stereo'', progress = 0, status = ''processing''\<rparr>"
proof -
  let ?s = "submit 0 ''job-1'' sample_file Map.empty"
  note inst = stage_first_call [where e = env_two_frames and n = "''stereo''" and s = ?s
      and m = "''stereo''" and now = 1 and p = 0 and st = "''processing''"]
  have a: "mkdir_error env_two_frames = None"
    by (simp add: env_two_frames_def)
  have b: "snd (processVideo env_two_frames) = None"
    by code_simp
  have c: "jobId (fst ?s) \<in> dom (snd ?s) \<and> ''stereo'' \<in> set (map name (stages (fst ?s)))"
    by (simp add: submit_simps initial_stages_def)
  have i: "jobId (fst ?s) = ''job-1''"
    by (simp add: submit_simps)
  from inst a b c show ?thesis
    by (simp add: i)
qed

text \<open>Claim C8 as stated fails for the first stage: \<^verbatim>\<open>extractFrames\<close> starts the
  \<^verbatim>\<open>depth\<close> stage at progress 10.\<close>

theorem depth_starts_at_ten:
  "hd (fst (processVideo env_two_frames)) = UpdateProgress ''depth'' 10 ''processing'' \<and>
   stages_of ''job-1'' (sample_run env_two_frames ! 1) = depth_running 10 ''processing'' \<and>
   progress (hd (stages_of ''job-1'' (sample_run env_two_frames ! 1))) \<noteq> 0"
proof -
  have n: "length (fst (processVideo env_two_frames)) = 45"
    by code_simp
  have h: "hd (fst (processVideo env_two_frames)) = UpdateProgress ''depth'' 10 ''processing''"
    by code_simp
  have "(initial_stages # stage_trace (fst (processVideo env_two_frames)) initial_stages) ! 1
      = depth_running 10 ''processing''"
    by code_simp
  then have s: "stages_of ''job-1'' (sample_run env_two_frames ! 1) = depth_running 10 ''processing''"
    using sample_run_stages [OF n, of 1] by simp
  with h show ?thesis
    by (simp add: depth_running_def)
qed

text \<open>
  Claim C9. Whatever subset of the depth maps fails to be created, even all of them,
  \<^verbatim>\<open>generateDepthMaps\<close> returns normally once at least one frame file was found, its
  last call marks \<^verbatim>\<open>depth\<close> completed at 100, and the job goes on to complete. It
  throws only when no frame file was found (with \<^verbatim>\<open>'No frames extracted from video'\<close>)
  or when the frame directory cannot be read.
\<close>

theorem depth_map_failures_tolerated:
  "(\<forall>files. readdir_result e = Inr files \<and> filter (\<lambda>f. endsWith f ''.png'') files \<noteq> [] \<longrightarrow>
      snd (generateDepthMaps (e\<lparr>depth_map_created := d\<rparr>)) = None \<and>
      last (fst (generateDepthMaps (e\<lparr>depth_map_created := d\<rparr>))) = UpdateProgress ''depth'' 100 ''completed'' \<and>
      (mkdir_error e = None \<and> ffmpeg_error e = None \<longrightarrow>
         snd (processVideo (e\<lparr>depth_map_created := d\<rparr>)) = None)) \<and>
   (\<forall>files. readdir_result e = Inr files \<and> filter (\<lambda>f. endsWith f ''.png'') files = [] \<longrightarrow>
      snd (generateDepthMaps (e\<lparr>depth_map_created := d\<rparr>)) = Some ''No frames extracted from video'') \<and>
   (\<forall>msg. readdir_result e = Inl msg \<longrightarrow>
      snd (generateDepthMaps (e\<lparr>depth_map_created := d\<rparr>)) = Some msg)"
proof (intro conjI allI impI)
  fix files
  assume a: "readdir_result e = Inr files \<and> filter (\<lambda>f. endsWith f ''.png'') files \<noteq> []"
  then show g: "snd (generateDepthMaps (e\<lparr>depth_map_created := d\<rparr>)) = None"
    by (simp add: generateDepthMaps_def Let_def)
  from a show "last (fst (generateDepthMaps (e\<lparr>depth_map_created := d\<rparr>))) = UpdateProgress ''depth'' 100 ''completed''"
    by (simp add: generateDepthMaps_def Let_def)
  assume "mkdir_error e = None \<and> ffmpeg_error e = None"
  with g show "snd (processVideo (e\<lparr>depth_map_created := d\<rparr>)) = None"
    by (simp add: processVideo_succeeds)
next
  fix files
  assume "readdir_result e = Inr files \<and> filter (\<lambda>f. endsWith f ''.png'') files = []"
  then show "snd (generateDepthMaps (e\<lparr>depth_map_created := d\<rparr>)) = Some ''No frames extracted from video''"
    by (simp add: generateDepthMaps_def Let_def)
next
  fix msg
  assume "readdir_result e = Inl msg"
  then show "snd (generateDepthMaps (e\<lparr>depth_map_created := d\<rparr>)) = Some msg"
    by (simp add: generateDepthMaps_def)
qed

theorem depth_map_failures_tolerated_witness:
  "readdir_result env_two_frames = Inr [''frame_0001.png'', ''notes.txt'', ''frame_0002.png''] \<and>
   filter (\<lambda>f. endsWith f ''.png'') [''frame_0001.png'', ''notes.txt'', ''frame_0002.png'']
     = [''frame_0001.png'', ''frame_0002.png''] \<and>
   snd (generateDepthMaps (env_two_frames\<lparr>depth_map_created := \<lambda>i. False\<rparr>)) = None \<and>
   last (fst (generateDepthMaps (env_two_frames\<lparr>depth_map_created := \<lambda>i. False\<rparr>)))
     = UpdateProgress ''depth'' 100 ''completed'' \<and>
   snd (processVideo (env_two_frames\<lparr>depth_map_created := \<lambda>i. False\<rparr>)) = None \<and>
   snd (generateDepthMaps (env_no_frames\<lparr>depth_map_created := \<lambda>i. True\<rparr>))
     = Some ''No frames extracted from video'' \<and>
   snd (generateDepthMaps (env_two_frames\<lparr>readdir_result := Inl ''ENOENT'', depth_map_created := \<lambda>i. True\<rparr>))
     = Some ''ENOENT''"
proof -
  have r: "readdir_result env_two_frames = Inr [''frame_0001.png'', ''notes.txt'', ''frame_0002.png'']"
    by (simp add: env_two_frames_def)
  have p: "filter (\<lambda>f. endsWith f ''.png'') [''frame_0001.png'', ''notes.txt'', ''frame_0002.png'']
     = [''frame_0001.png'', ''frame_0002.png'']"
    by (simp add: endsWith_def)
  have o: "mkdir_error env_two_frames = None \<and> ffmpeg_error env_two_frames = None"
    by (simp add: env_two_frames_def)
  have r2: "readdir_result env_no_frames = Inr [''notes.txt'']
      \<and> filter (\<lambda>f. endsWith f ''.png'') [''notes.txt''] = []"
    by (simp add: env_no_frames_def endsWith_def)
  have r3: "readdir_result (env_two_frames\<lparr>readdir_result := Inl ''ENOENT''\<rparr>) = Inl ''ENOENT''"
    by simp
  note i1 = depth_map_failures_tolerated [where e = env_two_frames and d = "\<lambda>i. False"]
  note i2 = depth_map_failures_tolerated [where e = env_no_frames and d = "\<lambda>i. True"]
  note i3 = depth_map_failures_tolerated [where e = "env_two_frames\<lparr>readdir_result := Inl ''ENOENT''\<rparr>" and d = "\<lambda>i. True"]
  from i1 r p o have "snd (generateDepthMaps (env_two_frames\<lparr>depth_map_created := \<lambda>i. False\<rparr>)) = None \<and>
      last (fst (generateDepthMaps (env_two_frames\<lparr>depth_map_created := \<lambda>i. False\<rparr>)))
        = UpdateProgress ''depth'' 100 ''completed'' \<and>
      snd (processVideo (env_two_frames\<lparr>depth_map_created := \<lambda>i. False\<rparr>)) = None"
    by simp
  moreover from i2 r2 have "snd (generateDepthMaps (env_no_frames\<lparr>depth_map_created := \<lambda>i. True\<rparr>))
     = Some ''No frames extracted from video''"
    by simp
  moreover from i3 r3 have "snd (generateDepthMaps
      (env_two_frames\<lparr>readdir_result := Inl ''ENOENT'', depth_map_created := \<lambda>i. True\<rparr>)) = Some ''ENOENT''"
    by simp
  ultimately show ?thesis
    using r p by simp
qed

end
